theory Spec2Isabelle
  imports Main
begin

section \<open>Single-precision values\<close>

text \<open>
  The matrices of \<^verbatim>\<open>Step2  - Table.cu\<close> hold C \<^verbatim>\<open>float\<close>s. A value is a signed
  significand with a binary exponent, an infinity, or a NaN: \<open>Finite s m e\<close> stands for
  \<open>(-1)^s * m * 2^e\<close>. Values produced by the operations below are in the binary32
  format: \<open>m < 2^24\<close>, \<open>-149 \<le> e \<le> 104\<close>, and \<open>2^23 \<le> m\<close> unless \<open>e = -149\<close>
  (subnormals and the two zeros). Every operation returns the exact result rounded to
  nearest, ties to even, which is how \<^verbatim>\<open>+\<close> and \<^verbatim>\<open>*\<close> on \<^verbatim>\<open>float\<close> behave on the host
  (SSE scalar arithmetic) and on the device. The product and the sum of
  \<^verbatim>\<open>C_val += A_elem * B_elem\<close> are rounded one after the other, as the source writes them;
  with the fill \<open>1.0\<close> of the source the product is exact, so a fused multiply-add
  gives the same accumulator.
\<close>

datatype float32 = Finite bool nat int | Infinity bool | NaN

fun bit_length :: "nat \<Rightarrow> nat" where
  "bit_length m = (if m = 0 then 0 else Suc (bit_length (m div 2)))"

declare bit_length.simps [simp del]

definition round_float32 :: "bool \<Rightarrow> nat \<Rightarrow> int \<Rightarrow> float32" where
  "round_float32 s m e =
     (let e1 = max (e + int (bit_length m) - 24) (- 149);
          q = (if e1 \<le> e then m * 2 ^ nat (e - e1)
               else (let d = nat (e1 - e);
                         q0 = m div 2 ^ d;
                         r = m mod 2 ^ d;
                         half = 2 ^ (d - 1)
                     in if half < r \<or> (r = half \<and> odd q0) then q0 + 1 else q0));
          q2 = (if q = 2 ^ 24 then 2 ^ 23 else q);
          e2 = (if q = 2 ^ 24 then e1 + 1 else e1)
      in if q2 = 0 then Finite s 0 (- 149)
         else if 104 < e2 then Infinity s
         else Finite s q2 e2)"

definition scaled :: "bool \<Rightarrow> nat \<Rightarrow> int \<Rightarrow> int \<Rightarrow> int" where
  "scaled s m e e0 = (if s then - 1 else 1) * int m * 2 ^ nat (e - e0)"

fun fadd :: "float32 \<Rightarrow> float32 \<Rightarrow> float32" where
  "fadd NaN y = NaN"
| "fadd x NaN = NaN"
| "fadd (Infinity s) (Infinity t) = (if s = t then Infinity s else NaN)"
| "fadd (Infinity s) (Finite t m e) = Infinity s"
| "fadd (Finite s m e) (Infinity t) = Infinity t"
| "fadd (Finite s1 m1 e1) (Finite s2 m2 e2) =
     (let e0 = min e1 e2;
          c = scaled s1 m1 e1 e0 + scaled s2 m2 e2 e0
      in if c = 0 then Finite (s1 \<and> s2) 0 (- 149)
         else round_float32 (c < 0) (nat \<bar>c\<bar>) e0)"

fun fmul :: "float32 \<Rightarrow> float32 \<Rightarrow> float32" where
  "fmul NaN y = NaN"
| "fmul x NaN = NaN"
| "fmul (Infinity s) (Infinity t) = Infinity (s \<noteq> t)"
| "fmul (Infinity s) (Finite t m e) = (if m = 0 then NaN else Infinity (s \<noteq> t))"
| "fmul (Finite s m e) (Infinity t) = (if m = 0 then NaN else Infinity (s \<noteq> t))"
| "fmul (Finite s1 m1 e1) (Finite s2 m2 e2) = round_float32 (s1 \<noteq> s2) (m1 * m2) (e1 + e2)"

text \<open>The comparison \<^verbatim>\<open>x != y\<close>: true when either side is a NaN, false on the two zeros.\<close>

fun fneq :: "float32 \<Rightarrow> float32 \<Rightarrow> bool" where
  "fneq NaN y = True"
| "fneq x NaN = True"
| "fneq (Infinity s) (Infinity t) = (s \<noteq> t)"
| "fneq (Infinity s) (Finite t m e) = True"
| "fneq (Finite s m e) (Infinity t) = True"
| "fneq (Finite s1 m1 e1) (Finite s2 m2 e2) =
     (scaled s1 m1 e1 (min e1 e2) \<noteq> scaled s2 m2 e2 (min e1 e2))"

text \<open>The conversion \<^verbatim>\<open>(float) n\<close> of an \<^verbatim>\<open>int\<close>.\<close>

definition float_of_int :: "int \<Rightarrow> float32" where
  "float_of_int n = round_float32 (n < 0) (nat \<bar>n\<bar>) 0"

text \<open>The literals of the source: \<^verbatim>\<open>0\<close>, \<^verbatim>\<open>1.0f\<close> and \<^verbatim>\<open>0.01f\<close> (bit pattern 3C23D70A).\<close>

definition zero_f :: float32 where
  "zero_f = Finite False 0 (- 149)"

definition valA :: float32 where
  "valA = Finite False 8388608 (- 23)"

definition valB :: float32 where
  "valB = Finite False 10737418 (- 30)"

section \<open>Buffers and loops\<close>

text \<open>
  A buffer is the list of its cells. C++ leaves an access outside the buffer undefined;
  here such an access yields \<open>None\<close>, and \<open>None\<close> propagates to the caller.
\<close>

definition rd :: "'a list \<Rightarrow> int \<Rightarrow> 'a option" where
  "rd v i = (if 0 \<le> i \<and> i < int (length v) then Some (v ! nat i) else None)"

definition wr :: "'a list \<Rightarrow> int \<Rightarrow> 'a \<Rightarrow> 'a list option" where
  "wr v i x = (if 0 \<le> i \<and> i < int (length v) then Some (v[nat i := x]) else None)"

text \<open>\<^verbatim>\<open>for (int i = lo; i < n; i++) body\<close>, the body acting on a state \<open>s\<close>.\<close>

function for_loop :: "int \<Rightarrow> int \<Rightarrow> (int \<Rightarrow> 's \<Rightarrow> 's option) \<Rightarrow> 's \<Rightarrow> 's option" where
  "for_loop i n body s =
     (if i < n then (case body i s of None \<Rightarrow> None | Some s' \<Rightarrow> for_loop (i + 1) n body s')
      else Some s)"
  by pat_completeness auto
termination
  by (relation "measure (\<lambda>(i, n, body, s). nat (n - i))") auto

declare for_loop.simps [simp del]

text \<open>The 32-bit conversions of the source's \<^verbatim>\<open>unsigned int\<close> and \<^verbatim>\<open>int\<close> variables.\<close>

definition uint32 :: "int \<Rightarrow> int" where
  "uint32 x = x mod 2 ^ 32"

definition sint32 :: "int \<Rightarrow> int" where
  "sint32 x = (x + 2 ^ 31) mod 2 ^ 32 - 2 ^ 31"

section \<open>The multiplication benchmark\<close>

definition constantInit :: "float32 list \<Rightarrow> int \<Rightarrow> float32 \<Rightarrow> float32 list option" where
  "constantInit data sz val = for_loop 0 sz (\<lambda>i d. wr d i val) data"

text \<open>
  One worker of \<^verbatim>\<open>matrixMulCUDA\<close>: \<open>bi\<close>, \<open>bd\<close> and \<open>ti\<close> are the \<open>(x, y)\<close> parts of
  \<^verbatim>\<open>blockIdx\<close>, \<^verbatim>\<open>blockDim\<close> and \<^verbatim>\<open>threadIdx\<close>. It returns the buffer \<open>C\<close> after its store.
\<close>

definition matrixMulCUDA ::
  "float32 list \<Rightarrow> float32 list \<Rightarrow> float32 list \<Rightarrow> int \<Rightarrow>
   nat \<times> nat \<Rightarrow> nat \<times> nat \<Rightarrow> nat \<times> nat \<Rightarrow> float32 list option" where
  "matrixMulCUDA C A B n bi bd ti =
     (let row = int (snd bi * snd bd + snd ti);
          col = int (fst bi * fst bd + fst ti)
      in case for_loop 0 n
                (\<lambda>k C_val.
                   case rd A (row * n + k) of None \<Rightarrow> None
                   | Some A_elem \<Rightarrow>
                       (case rd B (k * n + col) of None \<Rightarrow> None
                        | Some B_elem \<Rightarrow> Some (fadd C_val (fmul A_elem B_elem))))
                zero_f of
           None \<Rightarrow> None
         | Some C_val \<Rightarrow> wr C (row * n + col) C_val)"

text \<open>
  The launch \<^verbatim>\<open>matrixMulCUDA<<<grid, threads>>>(d_C, d_A, d_B, n)\<close> with
  \<^verbatim>\<open>grid = (g, g, 1)\<close> and \<^verbatim>\<open>threads = (b, b, 1)\<close>: one worker for each block index and
  thread index. The workers read \<open>A\<close> and \<open>B\<close> only and each stores into \<open>C\<close>, so they
  are run one after the other, blocks and threads in index order.
\<close>

definition workers :: "nat \<Rightarrow> nat \<Rightarrow> ((nat \<times> nat) \<times> (nat \<times> nat)) list" where
  "workers g b =
     concat (map (\<lambda>b_y. concat (map (\<lambda>b_x. concat (map (\<lambda>t_y.
       map (\<lambda>t_x. ((b_x, b_y), (t_x, t_y))) [0..<b]) [0..<b])) [0..<g])) [0..<g])"

fun run_workers ::
  "((nat \<times> nat) \<times> (nat \<times> nat)) list \<Rightarrow> nat \<Rightarrow> float32 list \<Rightarrow> float32 list \<Rightarrow> int \<Rightarrow>
   float32 list \<Rightarrow> float32 list option" where
  "run_workers [] b A B n C = Some C"
| "run_workers (w # ws) b A B n C =
     (case matrixMulCUDA C A B n (fst w) (b, b) (snd w) of
        None \<Rightarrow> None
      | Some C' \<Rightarrow> run_workers ws b A B n C')"

definition launch :: "nat \<Rightarrow> nat \<Rightarrow> float32 list \<Rightarrow> float32 list \<Rightarrow> float32 list \<Rightarrow> int \<Rightarrow>
    float32 list option" where
  "launch g b C A B n = run_workers (workers g b) b A B n C"

text \<open>The three nested loops of \<^verbatim>\<open>serialMultiply\<close>, on the host buffers.\<close>

definition serial_loops :: "float32 list \<Rightarrow> float32 list \<Rightarrow> int \<Rightarrow> float32 list \<Rightarrow>
    float32 list option" where
  "serial_loops h_A h_B n h_C =
     for_loop 0 n
       (\<lambda>i C1. for_loop 0 n
          (\<lambda>j C2.
             case for_loop 0 n
                    (\<lambda>k acc.
                       case rd h_A (i * n + k) of None \<Rightarrow> None
                       | Some a \<Rightarrow>
                           (case rd h_B (k * n + j) of None \<Rightarrow> None
                            | Some b \<Rightarrow> Some (fadd acc (fmul a b))))
                    zero_f of
               None \<Rightarrow> None
             | Some acc \<Rightarrow> wr C2 (i * n + j) acc)
          C1)
       h_C"

subsection \<open>The correctness checker\<close>

text \<open>
  \<^verbatim>\<open>checkCorrectness\<close> prints one of two messages. Beside the message, the functions
  below return the indices of the cells compared so far, in the order of the comparisons.
\<close>

datatype verdict = AllRight | GoneWrong

function check_cols ::
  "float32 list \<Rightarrow> float32 \<Rightarrow> int \<Rightarrow> int \<Rightarrow> int \<Rightarrow> int list \<Rightarrow> (bool \<times> int list) option" where
  "check_cols v v0 matSizeY i j seen =
     (if j < matSizeY then
        (case rd v (i * matSizeY + j) of
           None \<Rightarrow> None
         | Some x \<Rightarrow>
             if fneq x v0 then Some (True, seen @ [i * matSizeY + j])
             else check_cols v v0 matSizeY i (j + 1) (seen @ [i * matSizeY + j]))
      else Some (False, seen))"
  by pat_completeness auto
termination
  by (relation "measure (\<lambda>(v, v0, matSizeY, i, j, seen). nat (matSizeY - j))") auto

declare check_cols.simps [simp del]

function check_rows ::
  "float32 list \<Rightarrow> float32 \<Rightarrow> int \<Rightarrow> int \<Rightarrow> int \<Rightarrow> int list \<Rightarrow> (bool \<times> int list) option" where
  "check_rows v v0 matSizeX matSizeY i seen =
     (if i < matSizeX then
        (case check_cols v v0 matSizeY i 0 seen of
           None \<Rightarrow> None
         | Some (returned, seen') \<Rightarrow>
             if returned then Some (True, seen')
             else check_rows v v0 matSizeX matSizeY (i + 1) seen')
      else Some (False, seen))"
  by pat_completeness auto
termination
  by (relation "measure (\<lambda>(v, v0, matSizeX, matSizeY, i, seen). nat (matSizeX - i))") auto

declare check_rows.simps [simp del]

definition checkCorrectness :: "float32 list \<Rightarrow> int \<Rightarrow> int \<Rightarrow> (verdict \<times> int list) option" where
  "checkCorrectness v matSizeX matSizeY =
     (case rd v 0 of
        None \<Rightarrow> None
      | Some v0 \<Rightarrow>
          (case check_rows v v0 matSizeX matSizeY 0 [] of
             None \<Rightarrow> None
           | Some (returned, seen) \<Rightarrow> Some (if returned then GoneWrong else AllRight, seen)))"

subsection \<open>The host, the device and the trace of a run\<close>

datatype cudaError = cudaSuccess | cudaFailure nat

datatype buf = H_A | H_B | H_C | D_A | D_B | D_C

datatype timer = Start | Stop

text \<open>The device calls of \<^verbatim>\<open>matrixMultiply\<close> whose result the source tests.\<close>

datatype call =
    Malloc_A | Malloc_B | Malloc_C | Memcpy_A | Memcpy_B
  | Create_start | Create_stop | Record_start | Last_error | Record_stop
  | Synchronize | Elapsed_time | Memcpy_C

text \<open>
  What the host and the device answer during one call of \<^verbatim>\<open>matrixMultiply\<close> or
  \<^verbatim>\<open>serialMultiply\<close>: whether \<^verbatim>\<open>malloc\<close> returns \<^verbatim>\<open>NULL\<close>, what a fresh block of host
  or device memory holds, the result of each device call, and the two measured times.
\<close>

record env =
  host_null :: "buf \<Rightarrow> bool"
  host_mem :: "buf \<Rightarrow> nat \<Rightarrow> float32"
  dev_mem :: "buf \<Rightarrow> nat \<Rightarrow> float32"
  cuda :: "call \<Rightarrow> cudaError"
  msec :: float32
  serial_ms :: int

text \<open>
  A trace lists the calls of a run in order, each with the result the environment gave
  it. \<open>Check\<close> carries the matrix handed to \<^verbatim>\<open>checkCorrectness\<close> and the message it
  printed; \<open>Clock\<close> marks the two readings of the host clock in \<^verbatim>\<open>serialMultiply\<close>. A run
  ends by returning a time, by \<^verbatim>\<open>exit\<close> with a status, in an access outside a buffer, or
  waiting for the operator.
\<close>

datatype event =
    Malloc buf int
  | Free buf
  | CudaMalloc buf int cudaError
  | CudaFree buf
  | CudaMemcpy buf buf cudaError
  | EventCreate timer cudaError
  | EventRecord timer cudaError
  | KernelLaunch nat nat
  | GetLastError cudaError
  | EventSynchronize timer cudaError
  | EventElapsedTime cudaError
  | Clock timer
  | CudaSetDevice cudaError
  | DeviceSynchronize cudaError
  | Check "float32 list" verdict
  | Exit int

datatype outcome = Returned float32 | Exited int | Undefined | Blocked

text \<open>
  \<^verbatim>\<open>malloc\<close> and \<^verbatim>\<open>cudaMalloc\<close> of a number of bytes: a block of \<^verbatim>\<open>float\<close> cells (four
  bytes each) with the contents the environment gives; a \<^verbatim>\<open>NULL\<close> pointer has no cell.
\<close>

definition malloc :: "env \<Rightarrow> buf \<Rightarrow> int \<Rightarrow> float32 list" where
  "malloc env b bytes =
     (if host_null env b then [] else map (host_mem env b) [0..<nat (bytes div 4)])"

definition cudaMalloc :: "env \<Rightarrow> buf \<Rightarrow> int \<Rightarrow> float32 list" where
  "cudaMalloc env b bytes = map (dev_mem env b) [0..<nat (bytes div 4)]"

text \<open>A successful \<^verbatim>\<open>cudaMemcpy(dst, src, bytes, ...)\<close>.\<close>

definition cudaMemcpy :: "float32 list \<Rightarrow> float32 list \<Rightarrow> int \<Rightarrow> float32 list option" where
  "cudaMemcpy dst src bytes =
     (let k = nat (bytes div 4)
      in if k \<le> length src \<and> k \<le> length dst then Some (take k src @ drop k dst) else None)"

subsection \<open>The accelerated multiplier\<close>

text \<open>
  \<^verbatim>\<open>matrixMultiply\<close> returns the trace of its calls and how it ends: it returns
  \<^verbatim>\<open>msecTotal\<close>, it ends the process with \<^verbatim>\<open>exit\<close>, or it runs into an access outside
  a buffer. \<open>matrixMultiply_device\<close> is its second part, from the first \<^verbatim>\<open>cudaMalloc\<close> on;
  \<open>t0\<close> is the trace so far. A kernel launch that the device accepts runs all its workers.
\<close>

definition matrixMultiply_device ::
  "env \<Rightarrow> int \<Rightarrow> int \<Rightarrow> int \<Rightarrow> float32 list \<Rightarrow> float32 list \<Rightarrow> float32 list \<Rightarrow>
   int \<Rightarrow> int \<Rightarrow> int \<Rightarrow> event list \<Rightarrow> event list \<times> outcome" where
  "matrixMultiply_device env block_size grid_size n h_A h_B h_C0
       mem_size_A mem_size_B mem_size_C t0 =
     (let t1 = t0 @ [CudaMalloc D_A mem_size_A (cuda env Malloc_A)] in
      if cuda env Malloc_A \<noteq> cudaSuccess then (t1 @ [Exit 1], Exited 1) else
      let t2 = t1 @ [CudaMalloc D_B mem_size_B (cuda env Malloc_B)] in
      if cuda env Malloc_B \<noteq> cudaSuccess then (t2 @ [Exit 1], Exited 1) else
      let t3 = t2 @ [CudaMalloc D_C mem_size_C (cuda env Malloc_C)] in
      if cuda env Malloc_C \<noteq> cudaSuccess then (t3 @ [Exit 1], Exited 1) else
      let t4 = t3 @ [CudaMemcpy D_A H_A (cuda env Memcpy_A)] in
      if cuda env Memcpy_A \<noteq> cudaSuccess then (t4 @ [Exit 1], Exited 1) else
      case cudaMemcpy (cudaMalloc env D_A mem_size_A) h_A mem_size_A of
        None \<Rightarrow> (t4, Undefined)
      | Some d_A \<Rightarrow>
      let t5 = t4 @ [CudaMemcpy D_B H_B (cuda env Memcpy_B)] in
      if cuda env Memcpy_B \<noteq> cudaSuccess then (t5 @ [Exit 1], Exited 1) else
      case cudaMemcpy (cudaMalloc env D_B mem_size_B) h_B mem_size_B of
        None \<Rightarrow> (t5, Undefined)
      | Some d_B \<Rightarrow>
      let t6 = t5 @ [EventCreate Start (cuda env Create_start)] in
      if cuda env Create_start \<noteq> cudaSuccess then (t6 @ [Exit 1], Exited 1) else
      let t7 = t6 @ [EventCreate Stop (cuda env Create_stop)] in
      if cuda env Create_stop \<noteq> cudaSuccess then (t7 @ [Exit 1], Exited 1) else
      let t8 = t7 @ [EventRecord Start (cuda env Record_start)] in
      if cuda env Record_start \<noteq> cudaSuccess then (t8 @ [Exit 1], Exited 1) else
      let t9 = t8 @ [KernelLaunch (nat (uint32 grid_size)) (nat (uint32 block_size)),
                     GetLastError (cuda env Last_error)] in
      if cuda env Last_error \<noteq> cudaSuccess then (t9 @ [Exit 1], Exited 1) else
      case launch (nat (uint32 grid_size)) (nat (uint32 block_size))
             (cudaMalloc env D_C mem_size_C) d_A d_B n of
        None \<Rightarrow> (t9, Undefined)
      | Some d_C \<Rightarrow>
      let t10 = t9 @ [EventRecord Stop (cuda env Record_stop)] in
      if cuda env Record_stop \<noteq> cudaSuccess then (t10 @ [Exit 1], Exited 1) else
      let t11 = t10 @ [EventSynchronize Stop (cuda env Synchronize)] in
      if cuda env Synchronize \<noteq> cudaSuccess then (t11 @ [Exit 1], Exited 1) else
      let t12 = t11 @ [EventElapsedTime (cuda env Elapsed_time)] in
      if cuda env Elapsed_time \<noteq> cudaSuccess then (t12 @ [Exit 1], Exited 1) else
      let t13 = t12 @ [CudaMemcpy H_C D_C (cuda env Memcpy_C)] in
      if cuda env Memcpy_C \<noteq> cudaSuccess then (t13 @ [Exit 1], Exited 1) else
      case cudaMemcpy h_C0 d_C mem_size_C of
        None \<Rightarrow> (t13, Undefined)
      | Some h_C \<Rightarrow>
      case checkCorrectness h_C n n of
        None \<Rightarrow> (t13, Undefined)
      | Some (vd, seen) \<Rightarrow>
          (t13 @ [Check h_C vd, Free H_A, Free H_B, Free H_C,
                  CudaFree D_A, CudaFree D_B, CudaFree D_C],
           Returned (msec env)))"

definition matrixMultiply :: "env \<Rightarrow> int \<Rightarrow> int \<Rightarrow> int \<Rightarrow> event list \<times> outcome" where
  "matrixMultiply env block_size grid_size n =
     (let size_A = uint32 (n * n);
          mem_size_A = uint32 (4 * size_A);
          h_A0 = malloc env H_A mem_size_A;
          size_B = uint32 (n * n);
          mem_size_B = uint32 (4 * size_B);
          h_B0 = malloc env H_B mem_size_B;
          t1 = [Malloc H_A mem_size_A, Malloc H_B mem_size_B]
      in case constantInit h_A0 (sint32 size_A) valA of
           None \<Rightarrow> (t1, Undefined)
         | Some h_A \<Rightarrow>
             (case constantInit h_B0 (sint32 size_B) valB of
                None \<Rightarrow> (t1, Undefined)
              | Some h_B \<Rightarrow>
                  (let mem_size_C = uint32 (n * n * 4);
                       h_C0 = malloc env H_C mem_size_C;
                       t2 = t1 @ [Malloc H_C mem_size_C]
                   in if host_null env H_C then (t2 @ [Exit 1], Exited 1)
                      else matrixMultiply_device env block_size grid_size n h_A h_B h_C0
                             mem_size_A mem_size_B mem_size_C t2)))"

subsection \<open>The sequential multiplier\<close>

definition serialMultiply :: "env \<Rightarrow> int \<Rightarrow> event list \<times> outcome" where
  "serialMultiply env n =
     (let size_A = uint32 (n * n);
          mem_size_A = uint32 (4 * size_A);
          h_A0 = malloc env H_A mem_size_A;
          size_B = uint32 (n * n);
          mem_size_B = uint32 (4 * size_B);
          h_B0 = malloc env H_B mem_size_B;
          t1 = [Malloc H_A mem_size_A, Malloc H_B mem_size_B]
      in case constantInit h_A0 (sint32 size_A) valA of
           None \<Rightarrow> (t1, Undefined)
         | Some h_A \<Rightarrow>
             (case constantInit h_B0 (sint32 size_B) valB of
                None \<Rightarrow> (t1, Undefined)
              | Some h_B \<Rightarrow>
                  (let mem_size_C = uint32 (n * n * 4);
                       h_C0 = malloc env H_C mem_size_C;
                       t2 = t1 @ [Malloc H_C mem_size_C, Clock Start]
                   in case serial_loops h_A h_B n h_C0 of
                        None \<Rightarrow> (t2, Undefined)
                      | Some h_C \<Rightarrow>
                          (case checkCorrectness h_C n n of
                             None \<Rightarrow> (t2 @ [Clock Stop], Undefined)
                           | Some (vd, seen) \<Rightarrow>
                               (t2 @ [Clock Stop, Check h_C vd],
                                Returned (float_of_int (serial_ms env)))))))"

subsection \<open>The benchmark driver\<close>

text \<open>
  The loop of \<^verbatim>\<open>main\<close>. The list holds the pairs the operator types, as the values
  \<^verbatim>\<open>scanf\<close> stores in \<^verbatim>\<open>block_size\<close> and \<^verbatim>\<open>grid_size\<close>; when it is used up the program
  waits for input. \<open>envs k\<close> is the environment of pass \<open>k\<close>. The condition
  \<^verbatim>\<open>block_size > 0\<close> holds on entry (\<^verbatim>\<open>block_size = 1\<close>) and is tested again after each pass.
\<close>

fun main_loop :: "(nat \<Rightarrow> env) \<Rightarrow> nat \<Rightarrow> (int \<times> int) list \<Rightarrow> event list \<times> outcome" where
  "main_loop envs k [] = ([], Blocked)"
| "main_loop envs k ((block_size, grid_size) # rest) =
     (let n = sint32 (block_size * grid_size);
          cu = matrixMultiply (envs k) block_size grid_size n
      in case snd cu of
           Returned cuda_time \<Rightarrow>
             (let se = serialMultiply (envs k) n
              in case snd se of
                   Returned serial_time \<Rightarrow>
                     if block_size > 0 then
                       (let more = main_loop envs (Suc k) rest
                        in (fst cu @ fst se @ fst more, snd more))
                     else (fst cu @ fst se @ [Exit 0], Exited 0)
                 | Exited c \<Rightarrow> (fst cu @ fst se, Exited c)
                 | Undefined \<Rightarrow> (fst cu @ fst se, Undefined)
                 | Blocked \<Rightarrow> (fst cu @ fst se, Blocked))
         | Exited c \<Rightarrow> (fst cu, Exited c)
         | Undefined \<Rightarrow> (fst cu, Undefined)
         | Blocked \<Rightarrow> (fst cu, Blocked))"

text \<open>
  \<^verbatim>\<open>main\<close>: when the device is in the prohibited compute mode the program ends with
  \<^verbatim>\<open>exit(EXIT_SUCCESS)\<close> before the loop.
\<close>

definition main :: "bool \<Rightarrow> (nat \<Rightarrow> env) \<Rightarrow> (int \<times> int) list \<Rightarrow> event list \<times> outcome" where
  "main prohibited envs inputs =
     (if prohibited then ([Exit 0], Exited 0) else main_loop envs 0 inputs)"

text \<open>The device buffers allocated and not yet released at the end of a trace.\<close>

fun live_step :: "buf set \<Rightarrow> event \<Rightarrow> buf set" where
  "live_step S (CudaMalloc b bytes e) = (if e = cudaSuccess then insert b S else S)"
| "live_step S (CudaFree b) = S - {b}"
| "live_step S ev = S"

definition device_live :: "event list \<Rightarrow> buf set" where
  "device_live t = foldl live_step {} t"

section \<open>The matrix addition exercises\<close>

text \<open>
  \<^verbatim>\<open>fillMat\<close> of \<^verbatim>\<open>MattAdd.cu\<close> and of the host-only exercise: \<open>L\<close> is the function's
  \<^verbatim>\<open>static int L\<close>, passed in and returned with the buffer.
\<close>

definition fillMat :: "int list \<Rightarrow> int \<Rightarrow> int \<Rightarrow> int \<Rightarrow> (int list \<times> int) option" where
  "fillMat v matSizeX matSizeY L =
     for_loop 0 matSizeX
       (\<lambda>i s. for_loop 0 matSizeY
          (\<lambda>j s'. case wr (fst s') (i * matSizeY + j) (snd s') of
                     None \<Rightarrow> None
                   | Some v' \<Rightarrow> Some (v', snd s' + 1))
          s)
       (v, L)"

text \<open>
  The start of both \<^verbatim>\<open>main\<close> functions: two buffers of \<open>4 * 4\<close> cells from \<^verbatim>\<open>malloc\<close>,
  holding \<open>a0\<close> and \<open>b0\<close>, are filled one after the other; \<open>L\<close> starts at \<open>0\<close>.
\<close>

definition main_fill :: "(nat \<Rightarrow> int) \<Rightarrow> (nat \<Rightarrow> int) \<Rightarrow> (int list \<times> int list) option" where
  "main_fill a0 b0 =
     (let matSizeX = 4;
          matSizeY = 4;
          a = map a0 [0..<nat (matSizeX * matSizeY)];
          b = map b0 [0..<nat (matSizeX * matSizeY)]
      in case fillMat a matSizeX matSizeY 0 of
           None \<Rightarrow> None
         | Some (a', L1) \<Rightarrow>
             (case fillMat b matSizeX matSizeY L1 of
                None \<Rightarrow> None
              | Some (b', L2) \<Rightarrow> Some (a', b')))"

text \<open>
  \<^verbatim>\<open>addWithCuda\<close>, reduced to its calls and their order: \<open>dev\<close> gives the result of each
  device call, and every \<^verbatim>\<open>goto Error\<close> leads to the three \<^verbatim>\<open>cudaFree\<close> calls.
\<close>

datatype call5 =
    Set_device | Malloc_c | Malloc_a | Malloc_b | Copy_a | Copy_b
  | Launch_error | Device_sync | Copy_c

definition addWithCuda :: "(call5 \<Rightarrow> cudaError) \<Rightarrow> int \<Rightarrow> int \<Rightarrow> event list \<times> cudaError" where
  "addWithCuda dev matSizeX matSizeY =
     (let bytes = uint32 (matSizeX * matSizeY) * 4;
          Error = [CudaFree D_C, CudaFree D_A, CudaFree D_B];
          t1 = [CudaSetDevice (dev Set_device)] in
      if dev Set_device \<noteq> cudaSuccess then (t1 @ Error, dev Set_device) else
      let t2 = t1 @ [CudaMalloc D_C bytes (dev Malloc_c)] in
      if dev Malloc_c \<noteq> cudaSuccess then (t2 @ Error, dev Malloc_c) else
      let t3 = t2 @ [CudaMalloc D_A bytes (dev Malloc_a)] in
      if dev Malloc_a \<noteq> cudaSuccess then (t3 @ Error, dev Malloc_a) else
      let t4 = t3 @ [CudaMalloc D_B bytes (dev Malloc_b)] in
      if dev Malloc_b \<noteq> cudaSuccess then (t4 @ Error, dev Malloc_b) else
      let t5 = t4 @ [CudaMemcpy D_A H_A (dev Copy_a)] in
      if dev Copy_a \<noteq> cudaSuccess then (t5 @ Error, dev Copy_a) else
      let t6 = t5 @ [CudaMemcpy D_B H_B (dev Copy_b)] in
      if dev Copy_b \<noteq> cudaSuccess then (t6 @ Error, dev Copy_b) else
      let t7 = t6 @ [KernelLaunch 1 (nat (uint32 matSizeX)), GetLastError (dev Launch_error)] in
      if dev Launch_error \<noteq> cudaSuccess then (t7 @ Error, dev Launch_error) else
      let t8 = t7 @ [DeviceSynchronize (dev Device_sync)] in
      if dev Device_sync \<noteq> cudaSuccess then (t8 @ Error, dev Device_sync) else
      let t9 = t8 @ [CudaMemcpy H_C D_C (dev Copy_c)] in
      (t9 @ Error, dev Copy_c))"

section \<open>Notions used in the statements\<close>

text \<open>
  The value the reduction loop of both multipliers leaves in its accumulator after \<open>n\<close>
  rounds when every product is \<open>a * b\<close>: \<open>n\<close> single-precision additions of the rounded
  product, starting from zero.
\<close>

definition accumulate :: "nat \<Rightarrow> float32 \<Rightarrow> float32 \<Rightarrow> float32" where
  "accumulate n a b = ((\<lambda>C_val. fadd C_val (fmul a b)) ^^ n) zero_f"

text \<open>The matrices handed to \<^verbatim>\<open>checkCorrectness\<close> in a trace, in order.\<close>

fun outputs :: "event list \<Rightarrow> float32 list list" where
  "outputs [] = []"
| "outputs (Check c vd # t) = c # outputs t"
| "outputs (ev # t) = outputs t"

text \<open>Environments in which \<^verbatim>\<open>malloc\<close> and every device call succeed.\<close>

definition all_succeed :: "env \<Rightarrow> bool" where
  "all_succeed env =
     (\<not> host_null env H_A \<and> \<not> host_null env H_B \<and> \<not> host_null env H_C \<and>
      cuda env Malloc_A = cudaSuccess \<and> cuda env Malloc_B = cudaSuccess \<and>
      cuda env Malloc_C = cudaSuccess \<and> cuda env Memcpy_A = cudaSuccess \<and>
      cuda env Memcpy_B = cudaSuccess \<and> cuda env Create_start = cudaSuccess \<and>
      cuda env Create_stop = cudaSuccess \<and> cuda env Record_start = cudaSuccess \<and>
      cuda env Last_error = cudaSuccess \<and> cuda env Record_stop = cudaSuccess \<and>
      cuda env Synchronize = cudaSuccess \<and> cuda env Elapsed_time = cudaSuccess \<and>
      cuda env Memcpy_C = cudaSuccess)"

text \<open>
  Environments used at concrete inputs: two in which every call succeeds, with different
  memory contents and times; one in which the second \<^verbatim>\<open>cudaMalloc\<close> fails
  (\<^verbatim>\<open>cudaErrorMemoryAllocation\<close>, code 2); one in which the launch is rejected
  (\<^verbatim>\<open>cudaErrorInvalidConfiguration\<close>, code 9).
\<close>

definition env_ok :: env where
  "env_ok = \<lparr>host_null = (\<lambda>b. False), host_mem = (\<lambda>b k. NaN), dev_mem = (\<lambda>b k. NaN),
              cuda = (\<lambda>c. cudaSuccess), msec = Finite False 8388608 (- 24), serial_ms = 3\<rparr>"

definition env_other :: env where
  "env_other = \<lparr>host_null = (\<lambda>b. False), host_mem = (\<lambda>b k. valA),
              dev_mem = (\<lambda>b k. Infinity True),
              cuda = (\<lambda>c. cudaSuccess), msec = Finite False 12582912 (- 24), serial_ms = 5\<rparr>"

definition env_no_device_memory :: env where
  "env_no_device_memory =
     env_ok\<lparr>cuda := (\<lambda>c. if c = Malloc_B then cudaFailure 2 else cudaSuccess)\<rparr>"

definition env_launch_rejected :: env where
  "env_launch_rejected =
     env_ok\<lparr>cuda := (\<lambda>c. if c = Last_error then cudaFailure 9 else cudaSuccess)\<rparr>"

section \<open>Loops and buffers: basic facts\<close>

lemma for_loop_step:
  "i < n \<Longrightarrow> for_loop i n body s =
     (case body i s of None \<Rightarrow> None | Some s' \<Rightarrow> for_loop (i + 1) n body s')"
  by (subst for_loop.simps) simp

lemma for_loop_done: "\<not> i < n \<Longrightarrow> for_loop i n body s = Some s"
  by (subst for_loop.simps) simp

lemma for_loop_invariant:
  assumes "I lo s" and "lo \<le> n"
    and "\<And>i s. lo \<le> i \<Longrightarrow> i < n \<Longrightarrow> I i s \<Longrightarrow> \<exists>s'. body i s = Some s' \<and> I (i + 1) s'"
  shows "\<exists>s'. for_loop lo n body s = Some s' \<and> I n s'"
  using assms
proof (induction "nat (n - lo)" arbitrary: lo s)
  case 0
  then have "lo = n" by simp
  with 0 show ?case by (simp add: for_loop_done)
next
  case (Suc k)
  then have lt: "lo < n" by simp
  from Suc.prems(3)[OF order_refl lt Suc.prems(1)]
  obtain s1 where s1: "body lo s = Some s1" "I (lo + 1) s1" by blast
  have k: "k = nat (n - (lo + 1))" using Suc.hyps(2) by simp
  have "\<exists>s'. for_loop (lo + 1) n body s1 = Some s' \<and> I n s'"
  proof (rule Suc.hyps(1)[OF k s1(2)])
    show "lo + 1 \<le> n" using lt by simp
  next
    fix i s assume "lo + 1 \<le> i" "i < n" "I i s"
    then show "\<exists>s'. body i s = Some s' \<and> I (i + 1) s'"
      using Suc.prems(3)[of i s] by simp
  qed
  then show ?case using lt s1 by (simp add: for_loop_step)
qed

lemma cell_index_bound:
  fixes i j X Y :: int
  assumes "0 \<le> i" "i < X" "0 \<le> j" "j < Y"
  shows "0 \<le> i * Y + j" and "i * Y + j < X * Y"
proof -
  show "0 \<le> i * Y + j" using assms by simp
  have "(i + 1) * Y \<le> X * Y" using assms by (intro mult_right_mono) auto
  then show "i * Y + j < X * Y" using assms by (simp add: algebra_simps)
qed

lemma fillMat_result:
  assumes X: "0 \<le> X" and Y: "0 \<le> Y" and len: "length v = nat (X * Y)"
  shows "fillMat v X Y L = Some (map (\<lambda>k. L + int k) [0..<nat (X * Y)], L + X * Y)"
proof -
  define N where "N = nat (X * Y)"
  define body where "body = (\<lambda>(i::int) (j::int) (s' :: int list \<times> int).
      case wr (fst s') (i * Y + j) (snd s') of None \<Rightarrow> None | Some v' \<Rightarrow> Some (v', snd s' + 1))"
  define J where "J = (\<lambda>(i::int) (s :: int list \<times> int). length (fst s) = N \<and> snd s = L + i * Y \<and>
      (\<forall>k<N. fst s ! k = (if int k < i * Y then L + int k else v ! k)))"
  have XY: "0 \<le> X * Y" using X Y by simp
  have inner: "\<exists>s'. for_loop 0 Y (body i) s = Some s' \<and> J (i + 1) s'"
    if i: "0 \<le> i" "i < X" and Js: "J i s" for i s
  proof -
    define I where "I = (\<lambda>(j::int) (s' :: int list \<times> int). length (fst s') = N \<and>
        snd s' = L + i * Y + j \<and>
        (\<forall>k<N. fst s' ! k = (if int k < i * Y + j then L + int k else v ! k)))"
    have I0: "I 0 s" using Js by (simp add: I_def J_def)
    have step: "\<exists>s''. body i j s' = Some s'' \<and> I (j + 1) s''"
      if j: "0 \<le> j" "j < Y" and Is: "I j s'" for j s'
    proof -
      have lo: "0 \<le> i * Y + j" and hi: "i * Y + j < X * Y"
        using cell_index_bound[OF i j] by auto
      have inr: "nat (i * Y + j) < N" using lo hi by (simp add: N_def)
      have w: "wr (fst s') (i * Y + j) (snd s') = Some ((fst s')[nat (i * Y + j) := snd s'])"
        using Is lo hi XY by (simp add: wr_def I_def N_def)
      have "I (j + 1) ((fst s')[nat (i * Y + j) := snd s'], snd s' + 1)"
        unfolding I_def
      proof (intro conjI allI impI)
        show "length (fst ((fst s')[nat (i * Y + j) := snd s'], snd s' + 1)) = N"
          using Is by (simp add: I_def)
        show "snd ((fst s')[nat (i * Y + j) := snd s'], snd s' + 1) = L + i * Y + (j + 1)"
          using Is by (simp add: I_def)
        fix k assume k: "k < N"
        show "fst ((fst s')[nat (i * Y + j) := snd s'], snd s' + 1) ! k =
              (if int k < i * Y + (j + 1) then L + int k else v ! k)"
        proof (cases "k = nat (i * Y + j)")
          case True
          then have "int k = i * Y + j" using lo by simp
          then show ?thesis using Is k True by (simp add: I_def)
        next
          case False
          then have ne: "int k \<noteq> i * Y + j" using lo by auto
          have "fst s' ! k = (if int k < i * Y + j then L + int k else v ! k)"
            using Is k by (simp add: I_def)
          then show ?thesis using False ne by auto
        qed
      qed
      then show ?thesis using w by (simp add: body_def)
    qed
    from for_loop_invariant[of I 0 s Y "body i", OF I0 Y step]
    obtain s' where s': "for_loop 0 Y (body i) s = Some s'" "I Y s'" by blast
    have "J (i + 1) s'" using s'(2) by (simp add: I_def J_def algebra_simps)
    then show ?thesis using s'(1) by blast
  qed
  have J0: "J 0 (v, L)" using len by (simp add: J_def N_def)
  from for_loop_invariant[of J 0 "(v, L)" X "\<lambda>i s. for_loop 0 Y (body i) s", OF J0 X inner]
  obtain s' where s': "for_loop 0 X (\<lambda>i s. for_loop 0 Y (body i) s) (v, L) = Some s'" "J X s'"
    by blast
  have "fst s' = map (\<lambda>k. L + int k) [0..<N]"
  proof (rule nth_equalityI)
    show "length (fst s') = length (map (\<lambda>k. L + int k) [0..<N])"
      using s'(2) by (simp add: J_def)
  next
    fix k assume "k < length (fst s')"
    then have k: "k < N" using s'(2) by (simp add: J_def)
    then have "int k < X * Y" using XY by (simp add: N_def)
    then show "fst s' ! k = map (\<lambda>k. L + int k) [0..<N] ! k"
      using s'(2) k by (simp add: J_def)
  qed
  moreover have "snd s' = L + X * Y" using s'(2) by (simp add: J_def)
  ultimately have "s' = (map (\<lambda>k. L + int k) [0..<N], L + X * Y)"
    by (cases s') simp
  then show ?thesis using s'(1) by (simp add: fillMat_def body_def N_def)
qed

section \<open>The fill counter\<close>

lemma main_fill_result:
  "main_fill a0 b0 = Some (map int [0..<16], map (\<lambda>k. 16 + int k) [0..<16])"
proof -
  have a: "fillMat (map a0 [0..<16]) 4 4 0 = Some (map int [0..<16], 16)"
    using fillMat_result[of 4 4 "map a0 [0..<16]" 0] by simp
  have b: "fillMat (map b0 [0..<16]) 4 4 16 = Some (map (\<lambda>k. 16 + int k) [0..<16], 32)"
    using fillMat_result[of 4 4 "map b0 [0..<16]" 16] by simp
  show ?thesis by (simp add: main_fill_def a b)
qed

text \<open>
  C9. \<^verbatim>\<open>fillMat\<close> writes consecutive integers taken from its static counter, which
  persists across calls: after the two calls in \<^verbatim>\<open>main\<close> the first matrix holds
  \<open>0, ..., 15\<close> and every element of the second is the corresponding element of the first
  plus \<open>matSizeX * matSizeY\<close>, whatever the buffers held before. The same arguments give a
  different matrix when the counter differs, so the result is not a function of the
  arguments alone.
\<close>

theorem fillMat_counter_persists:
  "main_fill a0 b0 = Some (map int [0..<16], map (\<lambda>x. x + 4 * 4) (map int [0..<16]))
   \<and> map_option fst (fillMat (map a0 [0..<16]) 4 4 0)
       \<noteq> map_option fst (fillMat (map a0 [0..<16]) 4 4 (4 * 4))"
proof
  show "main_fill a0 b0 = Some (map int [0..<16], map (\<lambda>x. x + 4 * 4) (map int [0..<16]))"
    by (simp add: main_fill_result add.commute)
next
  have a: "fillMat (map a0 [0..<16]) 4 4 0 = Some (map int [0..<16], 16)"
    using fillMat_result[of 4 4 "map a0 [0..<16]" 0] by simp
  have b: "fillMat (map a0 [0..<16]) 4 4 (4 * 4) = Some (map (\<lambda>k. 16 + int k) [0..<16], 32)"
    using fillMat_result[of 4 4 "map a0 [0..<16]" 16] by simp
  have ne: "map int [0..<16] \<noteq> map (\<lambda>k. 16 + int k) [0..<16]"
  proof
    assume "map int [0..<16] = map (\<lambda>k. 16 + int k) [0..<16]"
    then have "map int [0..<16] ! 0 = map (\<lambda>k. 16 + int k) [0..<16] ! 0" by (rule arg_cong)
    then show False by simp
  qed
  show "map_option fst (fillMat (map a0 [0..<16]) 4 4 0)
       \<noteq> map_option fst (fillMat (map a0 [0..<16]) 4 4 (4 * 4))"
    unfolding a b using ne by simp
qed

section \<open>Evaluating single-precision operations\<close>

lemma bit_length_0: "bit_length 0 = 0"
  by (simp add: bit_length.simps)

lemma bit_length_1: "bit_length (Suc 0) = Suc 0"
  by (subst bit_length.simps) (simp add: bit_length_0)

lemma bit_length_Bit0: "bit_length (numeral (Num.Bit0 k)) = Suc (bit_length (numeral k))"
  by (subst bit_length.simps) simp

lemma bit_length_Bit1: "bit_length (numeral (Num.Bit1 k)) = Suc (bit_length (numeral k))"
  by (subst bit_length.simps) simp

lemmas float_eval = scaled_def round_float32_def Let_def bit_length_0 bit_length_1
  bit_length_Bit0 bit_length_Bit1 zero_f_def valA_def valB_def float_of_int_def

section \<open>The correctness checker\<close>

lemma upto_join:
  fixes a b c :: int
  assumes "a \<le> b + 1" "b \<le> c"
  shows "[a..b] @ [b + 1..c] = [a..c]"
proof (cases "a \<le> b")
  case True
  then show ?thesis using assms upto_split2[of a b c] by simp
next
  case False
  then have "a = b + 1" using assms by simp
  then show ?thesis by simp
qed

lemma check_cols_clean:
  assumes "0 \<le> i" "0 \<le> j" "j \<le> Y" "i * Y + Y \<le> int (length v)"
    and "\<forall>q. j \<le> q \<and> q < Y \<longrightarrow> \<not> fneq (v ! nat (i * Y + q)) v0"
  shows "check_cols v v0 Y i j seen = Some (False, seen @ [i * Y + j..i * Y + Y - 1])"
  using assms
proof (induction "nat (Y - j)" arbitrary: j seen)
  case 0
  then have "j = Y" by simp
  then show ?case by (subst check_cols.simps) simp
next
  case (Suc k)
  then have lt: "j < Y" by simp
  have Y0: "0 \<le> Y" using Suc.prems by simp
  have lo: "0 \<le> i * Y + j" using Suc.prems Y0 by simp
  have hi: "i * Y + j < int (length v)" using Suc.prems lt by simp
  have r: "rd v (i * Y + j) = Some (v ! nat (i * Y + j))" using lo hi by (simp add: rd_def)
  have ok: "\<not> fneq (v ! nat (i * Y + j)) v0" using Suc.prems(5) lt by simp
  have k: "k = nat (Y - (j + 1))" using Suc.hyps(2) by simp
  have IH: "check_cols v v0 Y i (j + 1) (seen @ [i * Y + j]) =
      Some (False, (seen @ [i * Y + j]) @ [i * Y + (j + 1)..i * Y + Y - 1])"
    using Suc.prems lt by (intro Suc.hyps(1)[OF k]) auto
  have "[i * Y + j..i * Y + Y - 1] = (i * Y + j) # [i * Y + (j + 1)..i * Y + Y - 1]"
    using lt by (subst upto_rec1) (simp_all add: add.assoc)
  then show ?case using lt r ok IH by (subst check_cols.simps) simp
qed

lemma check_cols_hit:
  assumes "0 \<le> i" "0 \<le> j" "j \<le> q0" "q0 < Y" "i * Y + q0 < int (length v)"
    and "fneq (v ! nat (i * Y + q0)) v0"
    and "\<forall>q. j \<le> q \<and> q < q0 \<longrightarrow> \<not> fneq (v ! nat (i * Y + q)) v0"
  shows "check_cols v v0 Y i j seen = Some (True, seen @ [i * Y + j..i * Y + q0])"
  using assms
proof (induction "nat (q0 - j)" arbitrary: j seen)
  case 0
  then have jq: "j = q0" by simp
  have Y0: "0 \<le> Y" using 0 by simp
  have lo: "0 \<le> i * Y + j" using 0 Y0 by simp
  have r: "rd v (i * Y + j) = Some (v ! nat (i * Y + j))" using lo 0 jq by (simp add: rd_def)
  show ?case using 0 jq r by (subst check_cols.simps) simp
next
  case (Suc k)
  then have lt: "j < q0" by simp
  have Y0: "0 \<le> Y" using Suc.prems by simp
  have lo: "0 \<le> i * Y + j" using Suc.prems Y0 by simp
  have hi: "i * Y + j < int (length v)" using Suc.prems lt by simp
  have r: "rd v (i * Y + j) = Some (v ! nat (i * Y + j))" using lo hi by (simp add: rd_def)
  have ok: "\<not> fneq (v ! nat (i * Y + j)) v0" using Suc.prems(7) lt by simp
  have k: "k = nat (q0 - (j + 1))" using Suc.hyps(2) by simp
  have IH: "check_cols v v0 Y i (j + 1) (seen @ [i * Y + j]) =
      Some (True, (seen @ [i * Y + j]) @ [i * Y + (j + 1)..i * Y + q0])"
    using Suc.prems lt by (intro Suc.hyps(1)[OF k]) auto
  have "[i * Y + j..i * Y + q0] = (i * Y + j) # [i * Y + (j + 1)..i * Y + q0]"
    using lt by (subst upto_rec1) (simp_all add: add.assoc)
  moreover have "j < Y" using lt Suc.prems by simp
  ultimately show ?case using r ok IH by (subst check_cols.simps) simp
qed

lemma check_rows_clean:
  assumes "0 \<le> i" "i \<le> X" "0 \<le> Y" "X * Y \<le> int (length v)"
    and "\<forall>p. i * Y \<le> p \<and> p < X * Y \<longrightarrow> \<not> fneq (v ! nat p) v0"
  shows "check_rows v v0 X Y i seen = Some (False, seen @ [i * Y..X * Y - 1])"
  using assms
proof (induction "nat (X - i)" arbitrary: i seen)
  case 0
  then have "i = X" by simp
  then show ?case by (subst check_rows.simps) simp
next
  case (Suc k)
  then have lt: "i < X" by simp
  have next_le: "(i + 1) * Y \<le> X * Y" using lt Suc.prems by (intro mult_right_mono) auto
  have row: "i * Y + Y \<le> int (length v)" using next_le Suc.prems by (simp add: algebra_simps)
  have clean_row: "\<forall>q. 0 \<le> q \<and> q < Y \<longrightarrow> \<not> fneq (v ! nat (i * Y + q)) v0"
  proof (intro allI impI)
    fix q assume q: "0 \<le> q \<and> q < Y"
    then have "i * Y + q < X * Y" using next_le by (simp add: algebra_simps)
    then show "\<not> fneq (v ! nat (i * Y + q)) v0" using Suc.prems(5) q by simp
  qed
  have cols: "check_cols v v0 Y i 0 seen = Some (False, seen @ [i * Y..i * Y + Y - 1])"
    using check_cols_clean[of i 0 Y v v0 seen] Suc.prems row clean_row by simp
  have k: "k = nat (X - (i + 1))" using Suc.hyps(2) by simp
  have IH: "check_rows v v0 X Y (i + 1) (seen @ [i * Y..i * Y + Y - 1]) =
      Some (False, (seen @ [i * Y..i * Y + Y - 1]) @ [(i + 1) * Y..X * Y - 1])"
  proof (rule Suc.hyps(1)[OF k])
    show "\<forall>p. (i + 1) * Y \<le> p \<and> p < X * Y \<longrightarrow> \<not> fneq (v ! nat p) v0"
      using Suc.prems(5) Suc.prems(3) by (simp add: algebra_simps)
  qed (use Suc.prems lt in auto)
  have "[i * Y..i * Y + Y - 1] @ [(i + 1) * Y..X * Y - 1] = [i * Y..X * Y - 1]"
    using upto_join[of "i * Y" "i * Y + Y - 1" "X * Y - 1"] next_le Suc.prems(3)
    by (simp add: algebra_simps)
  then show ?case using lt cols IH by (subst check_rows.simps) simp
qed

lemma check_rows_hit:
  assumes "0 \<le> i" "0 \<le> Y" "i * Y \<le> p" "p < X * Y" "X * Y \<le> int (length v)"
    and "fneq (v ! nat p) v0"
    and "\<forall>q. i * Y \<le> q \<and> q < p \<longrightarrow> \<not> fneq (v ! nat q) v0"
  shows "check_rows v v0 X Y i seen = Some (True, seen @ [i * Y..p])"
  using assms
proof (induction "nat (X - i)" arbitrary: i seen)
  case 0
  then have "X \<le> i" by simp
  then have "X * Y \<le> i * Y" using 0 by (intro mult_right_mono) auto
  then show ?case using 0 by simp
next
  case (Suc k)
  then have lt: "i < X" by simp
  have next_le: "(i + 1) * Y \<le> X * Y" using lt Suc.prems by (intro mult_right_mono) auto
  show ?case
  proof (cases "p < (i + 1) * Y")
    case True
    define q0 where "q0 = p - i * Y"
    have q0: "0 \<le> q0" "q0 < Y" "i * Y + q0 = p" using True Suc.prems by (simp_all add: q0_def algebra_simps)
    have clean: "\<forall>q. 0 \<le> q \<and> q < q0 \<longrightarrow> \<not> fneq (v ! nat (i * Y + q)) v0"
      using Suc.prems(7) q0 by (simp add: q0_def)
    have "check_cols v v0 Y i 0 seen = Some (True, seen @ [i * Y + 0..i * Y + q0])"
      using Suc.prems q0 clean by (intro check_cols_hit) auto
    then show ?thesis using lt q0 by (subst check_rows.simps) simp
  next
    case False
    have row: "i * Y + Y \<le> int (length v)" using next_le Suc.prems by (simp add: algebra_simps)
    have clean_row: "\<forall>q. 0 \<le> q \<and> q < Y \<longrightarrow> \<not> fneq (v ! nat (i * Y + q)) v0"
      using Suc.prems(7) False by (simp add: algebra_simps)
    have cols: "check_cols v v0 Y i 0 seen = Some (False, seen @ [i * Y..i * Y + Y - 1])"
      using check_cols_clean[of i 0 Y v v0 seen] Suc.prems row clean_row by simp
    have k: "k = nat (X - (i + 1))" using Suc.hyps(2) by simp
    have IH: "check_rows v v0 X Y (i + 1) (seen @ [i * Y..i * Y + Y - 1]) =
        Some (True, (seen @ [i * Y..i * Y + Y - 1]) @ [(i + 1) * Y..p])"
    proof (rule Suc.hyps(1)[OF k])
      show "\<forall>q. (i + 1) * Y \<le> q \<and> q < p \<longrightarrow> \<not> fneq (v ! nat q) v0"
        using Suc.prems(7) Suc.prems(2) by (simp add: algebra_simps)
      show "(i + 1) * Y \<le> p" using False by simp
    qed (use Suc.prems in auto)
    have "[i * Y..i * Y + Y - 1] @ [(i + 1) * Y..p] = [i * Y..p]"
      using upto_join[of "i * Y" "i * Y + Y - 1" p] False Suc.prems(2)
      by (simp add: algebra_simps)
    then show ?thesis using lt cols IH by (subst check_rows.simps) simp
  qed
qed

lemma checkCorrectness_clean:
  assumes "v \<noteq> []" "0 \<le> X" "0 \<le> Y" "X * Y \<le> int (length v)"
    and "\<forall>p. 0 \<le> p \<and> p < X * Y \<longrightarrow> \<not> fneq (v ! nat p) (v ! 0)"
  shows "checkCorrectness v X Y = Some (AllRight, [0..X * Y - 1])"
proof -
  have r: "rd v 0 = Some (v ! 0)" using assms(1) by (simp add: rd_def)
  have "check_rows v (v ! 0) X Y 0 [] = Some (False, [] @ [0 * Y..X * Y - 1])"
    using assms by (intro check_rows_clean) auto
  then show ?thesis using r by (simp add: checkCorrectness_def)
qed

lemma checkCorrectness_hit:
  assumes "0 \<le> Y" "0 \<le> p" "p < X * Y" "X * Y \<le> int (length v)"
    and "fneq (v ! nat p) (v ! 0)"
    and "\<forall>q. 0 \<le> q \<and> q < p \<longrightarrow> \<not> fneq (v ! nat q) (v ! 0)"
  shows "checkCorrectness v X Y = Some (GoneWrong, [0..p])"
proof -
  have "v \<noteq> []" using assms by auto
  then have r: "rd v 0 = Some (v ! 0)" by (simp add: rd_def)
  have "check_rows v (v ! 0) X Y 0 [] = Some (True, [] @ [0 * Y..p])"
    using assms by (intro check_rows_hit) auto
  then show ?thesis using r by (simp add: checkCorrectness_def)
qed

lemma fneq_refl: "x \<noteq> NaN \<Longrightarrow> \<not> fneq x x"
  by (cases x) simp_all

lemma replicate_uniform:
  assumes "c \<noteq> NaN"
  shows "\<forall>p. 0 \<le> p \<and> p < int n \<longrightarrow> \<not> fneq (replicate n c ! nat p) (replicate n c ! 0)"
proof (intro allI impI)
  fix p :: int assume p: "0 \<le> p \<and> p < int n"
  then have "nat p < n" "0 < n" by (simp_all add: nat_less_iff)
  then have "replicate n c ! nat p = c" "replicate n c ! 0 = c" by simp_all
  then show "\<not> fneq (replicate n c ! nat p) (replicate n c ! 0)"
    using assms by (simp add: fneq_refl)
qed

lemma first_mismatch:
  assumes "0 \<le> q" "q < N" "fneq (v ! nat q) v0"
  shows "\<exists>p. 0 \<le> p \<and> p < N \<and> fneq (v ! nat p) v0 \<and>
              (\<forall>r. 0 \<le> r \<and> r < p \<longrightarrow> \<not> fneq (v ! nat r) v0)"
proof -
  define P where "P = (\<lambda>k. int k < N \<and> fneq (v ! k) v0)"
  have Pq: "P (nat q)" using assms by (simp add: P_def)
  define p where "p = (LEAST k. P k)"
  have Pp: "P p" unfolding p_def using Pq by (rule LeastI)
  have least: "\<not> P k" if "k < p" for k using that not_less_Least unfolding p_def by blast
  have "\<forall>r. 0 \<le> r \<and> r < int p \<longrightarrow> \<not> fneq (v ! nat r) v0"
  proof (intro allI impI)
    fix r assume r: "0 \<le> r \<and> r < int p"
    then have "nat r < p" by (simp add: nat_less_iff)
    then have "\<not> P (nat r)" by (rule least)
    moreover have "int (nat r) < N" using r Pp by (simp add: P_def)
    ultimately show "\<not> fneq (v ! nat r) v0" by (simp add: P_def)
  qed
  then show ?thesis using Pp by (intro exI[of _ "int p"]) (simp add: P_def)
qed

text \<open>
  C2, as the code has it. The checker holds no expected value: it compares every element
  of the matrix with the first element \<open>v[0]\<close>, and it reports failure exactly when some
  element differs from \<open>v[0]\<close>.
\<close>

theorem checker_compares_with_first_element:
  assumes "v \<noteq> []" "0 \<le> X" "0 \<le> Y" "X * Y \<le> int (length v)"
  shows "\<exists>r seen. checkCorrectness v X Y = Some (r, seen) \<and>
           (r = GoneWrong) = (\<exists>q. 0 \<le> q \<and> q < X * Y \<and> fneq (v ! nat q) (v ! 0))"
proof (cases "\<exists>q. 0 \<le> q \<and> q < X * Y \<and> fneq (v ! nat q) (v ! 0)")
  case True
  then obtain q where "0 \<le> q" "q < X * Y" "fneq (v ! nat q) (v ! 0)" by blast
  from first_mismatch[OF this]
  obtain p where p: "0 \<le> p" "p < X * Y" "fneq (v ! nat p) (v ! 0)"
    "\<forall>r. 0 \<le> r \<and> r < p \<longrightarrow> \<not> fneq (v ! nat r) (v ! 0)" by blast
  have "checkCorrectness v X Y = Some (GoneWrong, [0..p])"
    using assms p by (intro checkCorrectness_hit) auto
  then show ?thesis using True by simp
next
  case False
  then have "checkCorrectness v X Y = Some (AllRight, [0..X * Y - 1])"
    using assms by (intro checkCorrectness_clean) auto
  then show ?thesis using False by simp
qed

theorem checker_compares_with_first_element_witness:
  "\<exists>r seen. checkCorrectness [valB, valB, valA, valB] 2 2 = Some (r, seen) \<and>
     (r = GoneWrong) = (\<exists>q. 0 \<le> q \<and> q < 2 * 2 \<and> fneq ([valB, valB, valA, valB] ! nat q) valB)"
  using checker_compares_with_first_element[of "[valB, valB, valA, valB]" 2 2] by simp

text \<open>
  C2, as stated, fails: a \<open>2 \<times> 2\<close> buffer filled with \<open>1.0\<close> passes the check although
  the expected value \<open>valA * valB * n\<close> for \<open>n = 2\<close> is another number.
\<close>

theorem checker_expected_value_counterexample:
  "checkCorrectness (replicate 4 valA) 2 2 = Some (AllRight, [0..3])
   \<and> fneq valA (fmul (fmul valA valB) (float_of_int 2))"
proof
  have "checkCorrectness (replicate 4 valA) 2 2 = Some (AllRight, [0..2 * 2 - 1])"
  proof (rule checkCorrectness_clean)
    show "\<forall>p. 0 \<le> p \<and> p < 2 * 2 \<longrightarrow> \<not> fneq (replicate 4 valA ! nat p) (replicate 4 valA ! 0)"
      using replicate_uniform[of valA 4] by (simp add: valA_def)
  qed simp_all
  then show "checkCorrectness (replicate 4 valA) 2 2 = Some (AllRight, [0..3])" by simp
next
  show "fneq valA (fmul (fmul valA valB) (float_of_int 2))"
    by (simp add: float_eval)
qed

text \<open>
  C10, as the code has it. A matrix all of whose elements compare equal to its first
  element under the comparison of \<^verbatim>\<open>float\<close>s passes the check, and every cell of the
  matrix is compared. So a buffer filled with one constant \<open>c\<close> passes, whatever \<open>c\<close> is
  and whether it is the right value or not, as long as \<open>c\<close> is not a NaN.
\<close>

theorem checker_accepts_uniform_matrix:
  assumes "v \<noteq> []" "0 \<le> X" "0 \<le> Y" "X * Y \<le> int (length v)"
    and "\<forall>p. 0 \<le> p \<and> p < X * Y \<longrightarrow> \<not> fneq (v ! nat p) (v ! 0)"
    and "c \<noteq> NaN" "0 < N" "X * Y \<le> int N"
  shows "checkCorrectness v X Y = Some (AllRight, [0..X * Y - 1])
       \<and> checkCorrectness (replicate N c) X Y = Some (AllRight, [0..X * Y - 1])"
proof
  show "checkCorrectness v X Y = Some (AllRight, [0..X * Y - 1])"
    using assms(1-5) by (rule checkCorrectness_clean)
  show "checkCorrectness (replicate N c) X Y = Some (AllRight, [0..X * Y - 1])"
  proof (rule checkCorrectness_clean)
    show "replicate N c \<noteq> []" using assms(7) by simp
    show "X * Y \<le> int (length (replicate N c))" using assms(8) by simp
    show "\<forall>p. 0 \<le> p \<and> p < X * Y \<longrightarrow> \<not> fneq (replicate N c ! nat p) (replicate N c ! 0)"
      using replicate_uniform[OF assms(6), of N] assms(8) by auto
  qed (use assms(2,3) in auto)
qed

theorem checker_accepts_uniform_matrix_witness:
  "checkCorrectness (replicate 4 (Finite False 5 0)) 2 2 = Some (AllRight, [0..2 * 2 - 1])
   \<and> checkCorrectness (replicate 4 (Infinity True)) 2 2 = Some (AllRight, [0..2 * 2 - 1])"
proof (rule checker_accepts_uniform_matrix)
  show "\<forall>p. 0 \<le> p \<and> p < 2 * 2 \<longrightarrow>
          \<not> fneq (replicate 4 (Finite False 5 0) ! nat p) (replicate 4 (Finite False 5 0) ! 0)"
    using replicate_uniform[of "Finite False 5 0" 4] by simp
qed simp_all

text \<open>
  C10, as stated, fails for a NaN: a \<open>2 \<times> 2\<close> buffer filled with NaN has all its elements
  equal to the first one, and the check fails at element \<open>0\<close>, because a NaN differs from
  itself in the comparison of the source.
\<close>

theorem checker_uniform_nan_counterexample:
  "replicate 4 NaN = [NaN, NaN, NaN, NaN]
   \<and> checkCorrectness (replicate 4 NaN) 2 2 = Some (GoneWrong, [0])"
proof
  show "replicate 4 NaN = [NaN, NaN, NaN, NaN]" by (simp add: numeral_eq_Suc)
  have "checkCorrectness (replicate 4 NaN) 2 2 = Some (GoneWrong, [0..0])"
    by (rule checkCorrectness_hit) simp_all
  then show "checkCorrectness (replicate 4 NaN) 2 2 = Some (GoneWrong, [0])" by simp
qed

text \<open>
  C6, as the code has it. The matrix is scanned in row-major order and every element is
  compared with \<open>v[0]\<close>. At the first element \<open>p\<close> that differs from \<open>v[0]\<close> failure is
  reported and the scan stops: the cells compared are \<open>0, ..., p\<close> and no other.
\<close>

theorem checker_fail_fast:
  assumes "0 \<le> Y" "0 \<le> p" "p < X * Y" "X * Y \<le> int (length v)"
    and "fneq (v ! nat p) (v ! 0)"
    and "\<forall>q. 0 \<le> q \<and> q < p \<longrightarrow> \<not> fneq (v ! nat q) (v ! 0)"
  shows "checkCorrectness v X Y = Some (GoneWrong, [0..p])"
  using assms by (rule checkCorrectness_hit)

theorem checker_fail_fast_witness:
  "checkCorrectness ((replicate 9 valB)[4 := valA]) 3 3 = Some (GoneWrong, [0..4])"
proof -
  have "\<forall>q. 0 \<le> q \<and> q < 4 \<longrightarrow> \<not> fneq ((replicate 9 valB)[4 := valA] ! nat q) valB"
  proof (intro allI impI)
    fix q :: int assume "0 \<le> q \<and> q < 4"
    then have "nat q < 9" "nat q \<noteq> 4" by auto
    then have "(replicate 9 valB)[4 := valA] ! nat q = valB" by simp
    then show "\<not> fneq ((replicate 9 valB)[4 := valA] ! nat q) valB"
      by (simp add: valB_def scaled_def)
  qed
  moreover have "fneq valA valB" by (simp add: valA_def valB_def scaled_def)
  ultimately show ?thesis
    using checker_fail_fast[of 3 4 3 "(replicate 9 valB)[4 := valA]"] by simp
qed

text \<open>
  C6, as stated, fails when the corrupted element is the first one: it becomes the value
  every other element is compared with. In a \<open>1 \<times> 1\<close> matrix no failure is reported at
  all; in a \<open>2 \<times> 2\<close> matrix the failure is found at element \<open>1\<close>.
\<close>

theorem checker_first_element_counterexample:
  "checkCorrectness [valA] 1 1 = Some (AllRight, [0])
   \<and> checkCorrectness ((replicate 4 valB)[0 := valA]) 2 2 = Some (GoneWrong, [0, 1])"
proof
  have "checkCorrectness [valA] 1 1 = Some (AllRight, [0..1 * 1 - 1])"
  proof (rule checkCorrectness_clean)
    show "\<forall>p. 0 \<le> p \<and> p < 1 * 1 \<longrightarrow> \<not> fneq ([valA] ! nat p) ([valA] ! 0)"
      by (simp add: valA_def scaled_def)
  qed simp_all
  then show "checkCorrectness [valA] 1 1 = Some (AllRight, [0])" by simp
next
  have "checkCorrectness ((replicate 4 valB)[0 := valA]) 2 2 = Some (GoneWrong, [0..1])"
  proof (rule checkCorrectness_hit)
    show "fneq ((replicate 4 valB)[0 := valA] ! nat 1) ((replicate 4 valB)[0 := valA] ! 0)"
      by (simp add: valA_def valB_def scaled_def)
    show "\<forall>q. 0 \<le> q \<and> q < 1 \<longrightarrow>
            \<not> fneq ((replicate 4 valB)[0 := valA] ! nat q) ((replicate 4 valB)[0 := valA] ! 0)"
      by (simp add: valA_def scaled_def)
  qed simp_all
  moreover have "[0..1::int] = [0, 1]" by (simp add: upto_rec1)
  ultimately show "checkCorrectness ((replicate 4 valB)[0 := valA]) 2 2 = Some (GoneWrong, [0, 1])"
    by simp
qed

section \<open>The two multipliers on constant matrices\<close>

lemma constantInit_result:
  assumes "0 \<le> sz" "int (length data) = sz"
  shows "constantInit data sz val = Some (replicate (nat sz) val)"
proof -
  define N where "N = length data"
  define I where "I = (\<lambda>(i::int) (d :: float32 list). length d = N \<and>
      (\<forall>k<N. d ! k = (if int k < i then val else data ! k)))"
  have I0: "I 0 data" by (simp add: I_def N_def)
  have step: "\<exists>d'. wr d i val = Some d' \<and> I (i + 1) d'" if "0 \<le> i" "i < sz" "I i d" for i d
  proof -
    have w: "wr d i val = Some (d[nat i := val])" using that assms by (simp add: wr_def I_def N_def)
    have "I (i + 1) (d[nat i := val])"
      unfolding I_def
    proof (intro conjI allI impI)
      show "length (d[nat i := val]) = N" using that by (simp add: I_def)
      fix k assume k: "k < N"
      show "d[nat i := val] ! k = (if int k < i + 1 then val else data ! k)"
      proof (cases "k = nat i")
        case True
        then show ?thesis using that k by (simp add: I_def)
      next
        case False
        then have "int k \<noteq> i" using that by auto
        moreover have "d ! k = (if int k < i then val else data ! k)"
          using that k by (simp add: I_def)
        ultimately show ?thesis using False by auto
      qed
    qed
    then show ?thesis using w by simp
  qed
  from for_loop_invariant[of I 0 data sz "\<lambda>i d. wr d i val", OF I0 assms(1) step]
  obtain d' where d': "for_loop 0 sz (\<lambda>i d. wr d i val) data = Some d'" "I sz d'" by blast
  have "d' = replicate (nat sz) val"
  proof (rule nth_equalityI)
    show "length d' = length (replicate (nat sz) val)" using d'(2) assms by (simp add: I_def N_def)
  next
    fix k assume "k < length d'"
    then have k: "k < N" using d'(2) by (simp add: I_def)
    then have "int k < sz" using assms by (simp add: N_def)
    then show "d' ! k = replicate (nat sz) val ! k" using d'(2) k assms by (simp add: I_def N_def)
  qed
  then show ?thesis using d'(1) by (simp add: constantInit_def)
qed

lemma rd_replicate: "0 \<le> i \<Longrightarrow> i < int N \<Longrightarrow> rd (replicate N x) i = Some x"
  by (simp add: rd_def)

lemma accumulate_Suc: "accumulate (Suc n) a b = fadd (accumulate n a b) (fmul a b)"
  by (simp add: accumulate_def)

lemma reduction_loop:
  assumes n: "0 \<le> n" and row: "0 \<le> row" "row < n" and col: "0 \<le> col" "col < n"
    and N: "int N = n * n"
  shows "for_loop 0 n
           (\<lambda>k C_val.
              case rd (replicate N a) (row * n + k) of None \<Rightarrow> None
              | Some A_elem \<Rightarrow>
                  (case rd (replicate N b) (k * n + col) of None \<Rightarrow> None
                   | Some B_elem \<Rightarrow> Some (fadd C_val (fmul A_elem B_elem))))
           zero_f = Some (accumulate (nat n) a b)"
proof -
  define body where "body = (\<lambda>(k::int) C_val.
              case rd (replicate N a) (row * n + k) of None \<Rightarrow> None
              | Some A_elem \<Rightarrow>
                  (case rd (replicate N b) (k * n + col) of None \<Rightarrow> None
                   | Some B_elem \<Rightarrow> Some (fadd C_val (fmul A_elem B_elem))))"
  define I where "I = (\<lambda>(k::int) acc. 0 \<le> k \<and> acc = accumulate (nat k) a b)"
  have I0: "I 0 zero_f" by (simp add: I_def accumulate_def)
  have step: "\<exists>s'. body k s = Some s' \<and> I (k + 1) s'" if k: "0 \<le> k" "k < n" and Is: "I k s" for k s
  proof -
    have "0 \<le> row * n + k" "row * n + k < n * n" using cell_index_bound[OF row k] by auto
    then have ra: "rd (replicate N a) (row * n + k) = Some a" using N by (simp add: rd_replicate)
    have "0 \<le> k * n + col" "k * n + col < n * n" using cell_index_bound[OF k col] by auto
    then have rb: "rd (replicate N b) (k * n + col) = Some b" using N by (simp add: rd_replicate)
    have "nat (k + 1) = Suc (nat k)" using k by simp
    then have "I (k + 1) (fadd s (fmul a b))" using Is k by (simp add: I_def accumulate_Suc)
    then show ?thesis using ra rb by (simp add: body_def)
  qed
  from for_loop_invariant[of I 0 zero_f n body, OF I0 n step]
  show ?thesis by (simp add: I_def body_def)
qed

lemma matrixMulCUDA_worker:
  assumes n: "0 \<le> n" and N: "int N = n * n" and len: "length C = N"
    and row: "snd bi * snd bd + snd ti < nat n"
    and col: "fst bi * fst bd + fst ti < nat n"
  shows "matrixMulCUDA C (replicate N a) (replicate N b) n bi bd ti =
           Some (C[(snd bi * snd bd + snd ti) * nat n + (fst bi * fst bd + fst ti)
                     := accumulate (nat n) a b])"
proof -
  define r where "r = int (snd bi * snd bd + snd ti)"
  define c where "c = int (fst bi * fst bd + fst ti)"
  have r: "0 \<le> r" "r < n" and c: "0 \<le> c" "c < n"
    using row col unfolding r_def c_def by (simp_all only: zless_nat_eq_int_zless of_nat_0_le_iff)
  have loop: "for_loop 0 n
           (\<lambda>k C_val.
              case rd (replicate N a) (r * n + k) of None \<Rightarrow> None
              | Some A_elem \<Rightarrow>
                  (case rd (replicate N b) (k * n + c) of None \<Rightarrow> None
                   | Some B_elem \<Rightarrow> Some (fadd C_val (fmul A_elem B_elem))))
           zero_f = Some (accumulate (nat n) a b)"
    using reduction_loop[OF n r c N] .
  have "0 \<le> r * n + c" "r * n + c < n * n" using cell_index_bound[OF r c] by auto
  then have w: "wr C (r * n + c) x = Some (C[nat (r * n + c) := x])" for x
    using N len by (simp add: wr_def)
  have idx: "nat (r * n + c) = (snd bi * snd bd + snd ti) * nat n + (fst bi * fst bd + fst ti)"
    using n by (simp add: r_def c_def nat_add_distrib nat_mult_distrib)
  have "matrixMulCUDA C (replicate N a) (replicate N b) n bi bd ti =
          Some (C[nat (r * n + c) := accumulate (nat n) a b])"
    unfolding matrixMulCUDA_def Let_def r_def[symmetric] c_def[symmetric]
    by (simp only: loop w option.case)
  then show ?thesis by (simp only: idx)
qed

lemma run_workers_result:
  assumes n: "0 \<le> n" and N: "int N = n * n"
    and inr: "\<forall>w\<in>set ws. snd (fst w) * b + snd (snd w) < nat n \<and>
                          fst (fst w) * b + fst (snd w) < nat n"
    and len: "length C = N"
  shows "\<exists>C'. run_workers ws b (replicate N a) (replicate N vb) n C = Some C' \<and> length C' = N \<and>
           (\<forall>k<N. C' ! k =
              (if k \<in> (\<lambda>w. (snd (fst w) * b + snd (snd w)) * nat n
                               + (fst (fst w) * b + fst (snd w))) ` set ws
               then accumulate (nat n) a vb else C ! k))"
  using inr len
proof (induction ws arbitrary: C)
  case Nil
  then show ?case by simp
next
  case (Cons w ws)
  let ?cell = "\<lambda>w :: (nat \<times> nat) \<times> (nat \<times> nat).
      (snd (fst w) * b + snd (snd w)) * nat n + (fst (fst w) * b + fst (snd w))"
  let ?d = "accumulate (nat n) a vb"
  have rw: "snd (fst w) * snd (b, b) + snd (snd w) < nat n"
    and cw: "fst (fst w) * fst (b, b) + fst (snd w) < nat n"
    using Cons.prems(1) by auto
  have one: "matrixMulCUDA C (replicate N a) (replicate N vb) n (fst w) (b, b) (snd w) =
      Some (C[?cell w := ?d])"
    using matrixMulCUDA_worker[OF n N Cons.prems(2) rw cw, of a vb] by simp
  have inr': "\<forall>w\<in>set ws. snd (fst w) * b + snd (snd w) < nat n \<and>
                          fst (fst w) * b + fst (snd w) < nat n"
    using Cons.prems(1) by simp
  have len': "length (C[?cell w := ?d]) = N" using Cons.prems(2) by simp
  from Cons.IH[OF inr' len']
  obtain C' where C': "run_workers ws b (replicate N a) (replicate N vb) n (C[?cell w := ?d]) = Some C'"
    "length C' = N" "\<forall>k<N. C' ! k = (if k \<in> ?cell ` set ws then ?d else C[?cell w := ?d] ! k)"
    by blast
  have "\<forall>k<N. C' ! k = (if k \<in> ?cell ` set (w # ws) then ?d else C ! k)"
  proof (intro allI impI)
    fix k assume k: "k < N"
    show "C' ! k = (if k \<in> ?cell ` set (w # ws) then ?d else C ! k)"
    proof (cases "k = ?cell w")
      case True
      then show ?thesis using C'(3) k Cons.prems(2) by simp
    next
      case False
      then show ?thesis using C'(3) k by auto
    qed
  qed
  then show ?case using one C'(1,2) by simp
qed

lemma set_workers:
  "set (workers g b) =
     {w. fst (fst w) < g \<and> snd (fst w) < g \<and> fst (snd w) < b \<and> snd (snd w) < b}"
  by (fastforce simp: workers_def)

lemma workers_in_range:
  assumes "w \<in> set (workers g b)"
  shows "snd (fst w) * b + snd (snd w) < g * b" and "fst (fst w) * b + fst (snd w) < g * b"
proof -
  have w: "fst (fst w) < g" "snd (fst w) < g" "fst (snd w) < b" "snd (snd w) < b"
    using assms by (simp_all add: set_workers)
  have "snd (fst w) * b + snd (snd w) < snd (fst w) * b + b" using w by simp
  also have "\<dots> = Suc (snd (fst w)) * b" by simp
  also have "\<dots> \<le> g * b" using w by (intro mult_le_mono1) simp
  finally show "snd (fst w) * b + snd (snd w) < g * b" .
  have "fst (fst w) * b + fst (snd w) < fst (fst w) * b + b" using w by simp
  also have "\<dots> = Suc (fst (fst w)) * b" by simp
  also have "\<dots> \<le> g * b" using w by (intro mult_le_mono1) simp
  finally show "fst (fst w) * b + fst (snd w) < g * b" .
qed

lemma workers_cover:
  assumes b: "0 < b" and k: "k < (g * b) * (g * b)"
  shows "k \<in> (\<lambda>w. (snd (fst w) * b + snd (snd w)) * (g * b) + (fst (fst w) * b + fst (snd w)))
               ` set (workers g b)"
proof -
  define row where "row = k div (g * b)"
  define col where "col = k mod (g * b)"
  have gb: "0 < g * b" using k by (cases "g * b = 0") auto
  have row: "row < g * b" using k gb by (simp add: row_def less_mult_imp_div_less)
  have col: "col < g * b" using gb by (simp add: col_def)
  define w where "w = ((col div b, row div b), (col mod b, row mod b))"
  have "w \<in> set (workers g b)"
    using row col b by (simp add: set_workers w_def less_mult_imp_div_less)
  moreover have "(snd (fst w) * b + snd (snd w)) * (g * b) + (fst (fst w) * b + fst (snd w)) = k"
  proof -
    have "(snd (fst w) * b + snd (snd w)) * (g * b) + (fst (fst w) * b + fst (snd w)) =
          (row div b * b + row mod b) * (g * b) + (col div b * b + col mod b)"
      by (simp only: w_def fst_conv snd_conv)
    also have "\<dots> = row * (g * b) + col" by (simp only: div_mult_mod_eq)
    also have "\<dots> = k" unfolding row_def col_def by (rule div_mult_mod_eq)
    finally show ?thesis .
  qed
  ultimately show ?thesis by (metis (mono_tags, lifting) image_eqI)
qed

lemma launch_result:
  assumes g: "0 < g" and b: "0 < b" and n: "n = int (g * b)" and N: "N = (g * b) * (g * b)"
    and len: "length C = N"
  shows "launch g b C (replicate N a) (replicate N vb) n = Some (replicate N (accumulate (g * b) a vb))"
proof -
  have n0: "0 \<le> n" using n by simp
  have Nn: "int N = n * n" using n N by simp
  have nn: "nat n = g * b" unfolding n by (rule nat_int)
  have inr: "\<forall>w\<in>set (workers g b). snd (fst w) * b + snd (snd w) < nat n \<and>
                          fst (fst w) * b + fst (snd w) < nat n"
    unfolding nn using workers_in_range[of _ g b] by blast
  from run_workers_result[OF n0 Nn inr len, of a vb]
  obtain C' where C': "run_workers (workers g b) b (replicate N a) (replicate N vb) n C = Some C'"
    "length C' = N"
    "\<forall>k<N. C' ! k =
        (if k \<in> (\<lambda>w. (snd (fst w) * b + snd (snd w)) * nat n + (fst (fst w) * b + fst (snd w)))
                  ` set (workers g b)
         then accumulate (nat n) a vb else C ! k)" by blast
  have "C' = replicate N (accumulate (g * b) a vb)"
  proof (rule nth_equalityI)
    show "length C' = length (replicate N (accumulate (g * b) a vb))" using C'(2) by simp
  next
    fix k assume "k < length C'"
    then have k: "k < N" using C'(2) by simp
    then have "k \<in> (\<lambda>w. (snd (fst w) * b + snd (snd w)) * (g * b) + (fst (fst w) * b + fst (snd w)))
               ` set (workers g b)"
      using workers_cover[OF b, of k g] N by simp
    then show "C' ! k = replicate N (accumulate (g * b) a vb) ! k"
      using C'(3) k by (simp add: nn)
  qed
  then show ?thesis using C'(1) by (simp add: launch_def)
qed

lemma serial_loops_result:
  assumes n: "0 \<le> n" and N: "int N = n * n" and len: "length C = N"
  shows "serial_loops (replicate N a) (replicate N vb) n C =
           Some (replicate N (accumulate (nat n) a vb))"
proof -
  let ?d = "accumulate (nat n) a vb"
  define kloop where "kloop = (\<lambda>(i::int) (j::int). for_loop 0 n
        (\<lambda>k acc. case rd (replicate N a) (i * n + k) of None \<Rightarrow> None
           | Some x \<Rightarrow> (case rd (replicate N vb) (k * n + j) of None \<Rightarrow> None
                        | Some y \<Rightarrow> Some (fadd acc (fmul x y))))
        zero_f)"
  define body where "body = (\<lambda>(i::int) (j::int) (C2 :: float32 list).
        case kloop i j of None \<Rightarrow> None | Some acc \<Rightarrow> wr C2 (i * n + j) acc)"
  define J where "J = (\<lambda>(i::int) (C1 :: float32 list). length C1 = N \<and>
      (\<forall>k<N. C1 ! k = (if int k < i * n then ?d else C ! k)))"
  have inner: "\<exists>C'. for_loop 0 n (body i) C1 = Some C' \<and> J (i + 1) C'"
    if i: "0 \<le> i" "i < n" and JC: "J i C1" for i C1
  proof -
    define I where "I = (\<lambda>(j::int) (C2 :: float32 list). length C2 = N \<and>
        (\<forall>k<N. C2 ! k = (if int k < i * n + j then ?d else C ! k)))"
    have I0: "I 0 C1" using JC by (simp add: I_def J_def)
    have step: "\<exists>C3. body i j C2 = Some C3 \<and> I (j + 1) C3"
      if j: "0 \<le> j" "j < n" and IC: "I j C2" for j C2
    proof -
      have kl: "kloop i j = Some ?d" unfolding kloop_def using reduction_loop[OF n i j N] .
      have lo: "0 \<le> i * n + j" and hi: "i * n + j < n * n" using cell_index_bound[OF i j] by auto
      have w: "wr C2 (i * n + j) ?d = Some (C2[nat (i * n + j) := ?d])"
        using IC lo hi N by (simp add: wr_def I_def)
      have "I (j + 1) (C2[nat (i * n + j) := ?d])"
        unfolding I_def
      proof (intro conjI allI impI)
        show "length (C2[nat (i * n + j) := ?d]) = N" using IC by (simp add: I_def)
        fix k assume k: "k < N"
        show "C2[nat (i * n + j) := ?d] ! k = (if int k < i * n + (j + 1) then ?d else C ! k)"
        proof (cases "k = nat (i * n + j)")
          case True
          then have "int k = i * n + j" using lo by simp
          then show ?thesis using IC k True by (simp add: I_def)
        next
          case False
          then have ne: "int k \<noteq> i * n + j" using lo by auto
          have "C2 ! k = (if int k < i * n + j then ?d else C ! k)" using IC k by (simp add: I_def)
          then show ?thesis using False ne by auto
        qed
      qed
      then show ?thesis using kl w by (simp add: body_def)
    qed
    from for_loop_invariant[of I 0 C1 n "body i", OF I0 n step]
    obtain C' where C': "for_loop 0 n (body i) C1 = Some C'" "I n C'" by blast
    have "J (i + 1) C'" using C'(2) by (simp add: I_def J_def algebra_simps)
    then show ?thesis using C'(1) by blast
  qed
  have J0: "J 0 C" using len by (simp add: J_def)
  from for_loop_invariant[of J 0 C n "\<lambda>i C1. for_loop 0 n (body i) C1", OF J0 n inner]
  obtain C' where C': "for_loop 0 n (\<lambda>i C1. for_loop 0 n (body i) C1) C = Some C'" "J n C'"
    by blast
  have "C' = replicate N ?d"
  proof (rule nth_equalityI)
    show "length C' = length (replicate N ?d)" using C'(2) by (simp add: J_def)
  next
    fix k assume "k < length C'"
    then have k: "k < N" using C'(2) by (simp add: J_def)
    then have "int k < n * n" using N by simp
    then show "C' ! k = replicate N ?d ! k" using C'(2) k by (simp add: J_def)
  qed
  then show ?thesis using C'(1) by (simp add: serial_loops_def body_def kloop_def)
qed

lemma round_float32_sign:
  "round_float32 s m e = Infinity s \<or> (\<exists>q e'. round_float32 s m e = Finite s q e')"
  by (simp add: round_float32_def Let_def)

lemma fadd_nonneg:
  assumes "x = Infinity False \<or> (\<exists>m e. x = Finite False m e)"
  shows "fadd x (Finite False m2 e2) = Infinity False \<or>
         (\<exists>m e. fadd x (Finite False m2 e2) = Finite False m e)"
proof -
  consider "x = Infinity False" | m e where "x = Finite False m e" using assms by blast
  then show ?thesis
  proof cases
    case 1
    then show ?thesis by simp
  next
    case 2
    let ?c = "scaled False m e (min e e2) + scaled False m2 e2 (min e e2)"
    have "0 \<le> ?c" by (simp add: scaled_def)
    then have nn: "\<not> ?c < 0" by simp
    show ?thesis
    proof (cases "?c = 0")
      case True
      then show ?thesis using 2 by (simp add: Let_def)
    next
      case False
      then show ?thesis
        using 2 nn round_float32_sign[of False "nat \<bar>?c\<bar>" "min e e2"]
        by (simp add: Let_def)
    qed
  qed
qed

lemma fmul_valA_valB: "fmul valA valB = valB"
  by (simp add: float_eval)

lemma accumulate_nonneg:
  "accumulate n valA valB = Infinity False \<or> (\<exists>m e. accumulate n valA valB = Finite False m e)"
proof (induction n)
  case 0
  then show ?case by (simp add: accumulate_def zero_f_def)
next
  case (Suc n)
  then show ?case
    using fadd_nonneg[of "accumulate n valA valB" 10737418 "- 30"]
    by (simp add: accumulate_Suc fmul_valA_valB) (simp add: valB_def)
qed

lemma accumulate_not_NaN: "accumulate n valA valB \<noteq> NaN"
  using accumulate_nonneg[of n] by auto

section \<open>Runs of the two multipliers\<close>

lemma matrixMultiply_device_returned:
  assumes "matrixMultiply_device env block_size grid_size n h_A h_B h_C0 mA mB mC t0 = (t, Returned x)"
  shows "x = msec env \<and> (\<exists>h_C vd. t = t0 @
     [CudaMalloc D_A mA cudaSuccess, CudaMalloc D_B mB cudaSuccess, CudaMalloc D_C mC cudaSuccess,
      CudaMemcpy D_A H_A cudaSuccess, CudaMemcpy D_B H_B cudaSuccess,
      EventCreate Start cudaSuccess, EventCreate Stop cudaSuccess,
      EventRecord Start cudaSuccess,
      KernelLaunch (nat (uint32 grid_size)) (nat (uint32 block_size)), GetLastError cudaSuccess,
      EventRecord Stop cudaSuccess, EventSynchronize Stop cudaSuccess,
      EventElapsedTime cudaSuccess, CudaMemcpy H_C D_C cudaSuccess,
      Check h_C vd, Free H_A, Free H_B, Free H_C, CudaFree D_A, CudaFree D_B, CudaFree D_C])"
  using assms
  by (auto simp: matrixMultiply_device_def Let_def split: if_splits option.splits prod.splits)

lemma matrixMultiply_returned:
  assumes "matrixMultiply env block_size grid_size n = (t, Returned x)"
  shows "x = msec env \<and> (\<exists>h_C vd. t =
     [Malloc H_A (uint32 (4 * uint32 (n * n))), Malloc H_B (uint32 (4 * uint32 (n * n))),
      Malloc H_C (uint32 (n * n * 4)),
      CudaMalloc D_A (uint32 (4 * uint32 (n * n))) cudaSuccess,
      CudaMalloc D_B (uint32 (4 * uint32 (n * n))) cudaSuccess,
      CudaMalloc D_C (uint32 (n * n * 4)) cudaSuccess,
      CudaMemcpy D_A H_A cudaSuccess, CudaMemcpy D_B H_B cudaSuccess,
      EventCreate Start cudaSuccess, EventCreate Stop cudaSuccess,
      EventRecord Start cudaSuccess,
      KernelLaunch (nat (uint32 grid_size)) (nat (uint32 block_size)), GetLastError cudaSuccess,
      EventRecord Stop cudaSuccess, EventSynchronize Stop cudaSuccess,
      EventElapsedTime cudaSuccess, CudaMemcpy H_C D_C cudaSuccess,
      Check h_C vd, Free H_A, Free H_B, Free H_C, CudaFree D_A, CudaFree D_B, CudaFree D_C])"
proof -
  let ?mA = "uint32 (4 * uint32 (n * n))"
  let ?mC = "uint32 (n * n * 4)"
  from assms obtain h_A h_B where
    dev: "matrixMultiply_device env block_size grid_size n h_A h_B (malloc env H_C ?mC)
            ?mA ?mA ?mC [Malloc H_A ?mA, Malloc H_B ?mA, Malloc H_C ?mC] = (t, Returned x)"
    by (auto simp: matrixMultiply_def Let_def split: option.splits if_splits)
  from matrixMultiply_device_returned[OF dev] show ?thesis by simp
qed

lemma sizes32:
  assumes "0 \<le> n" "n * n < 2 ^ 30"
  shows "uint32 (n * n) = n * n" "uint32 (4 * (n * n)) = 4 * (n * n)"
    "sint32 (n * n) = n * n" "uint32 (n * n * 4) = 4 * (n * n)"
proof -
  have nn: "0 \<le> n * n" using assms by simp
  have lt: "n * n < 1073741824" using assms by simp
  show "uint32 (n * n) = n * n" using nn lt by (simp add: uint32_def)
  show "uint32 (4 * (n * n)) = 4 * (n * n)" using nn lt by (simp add: uint32_def)
  show "sint32 (n * n) = n * n" using nn lt by (simp add: sint32_def)
  show "uint32 (n * n * 4) = 4 * (n * n)" using nn lt by (simp add: uint32_def)
qed

lemma malloc_cells:
  "0 \<le> k \<Longrightarrow> \<not> host_null env b \<Longrightarrow> malloc env b (4 * k) = map (host_mem env b) [0..<nat k]"
  by (simp add: malloc_def)

lemma cudaMalloc_cells: "0 \<le> k \<Longrightarrow> cudaMalloc env b (4 * k) = map (dev_mem env b) [0..<nat k]"
  by (simp add: cudaMalloc_def)

lemma cudaMemcpy_full:
  "0 \<le> k \<Longrightarrow> length src = nat k \<Longrightarrow> length dst = nat k \<Longrightarrow> cudaMemcpy dst src (4 * k) = Some src"
  by (simp add: cudaMemcpy_def)

lemma matrixMultiply_host:
  assumes n: "0 \<le> n" "n * n < 2 ^ 30" and A: "\<not> host_null env H_A" and B: "\<not> host_null env H_B"
  shows "matrixMultiply env block_size grid_size n =
     (if host_null env H_C
      then ([Malloc H_A (4 * (n * n)), Malloc H_B (4 * (n * n)), Malloc H_C (4 * (n * n)), Exit 1],
            Exited 1)
      else matrixMultiply_device env block_size grid_size n
             (replicate (nat (n * n)) valA) (replicate (nat (n * n)) valB)
             (map (host_mem env H_C) [0..<nat (n * n)])
             (4 * (n * n)) (4 * (n * n)) (4 * (n * n))
             [Malloc H_A (4 * (n * n)), Malloc H_B (4 * (n * n)), Malloc H_C (4 * (n * n))])"
proof -
  have nn: "0 \<le> n * n" using n by simp
  have iA: "constantInit (map (host_mem env H_A) [0..<nat (n * n)]) (n * n) valA =
      Some (replicate (nat (n * n)) valA)"
    using nn by (intro constantInit_result) auto
  have iB: "constantInit (map (host_mem env H_B) [0..<nat (n * n)]) (n * n) valB =
      Some (replicate (nat (n * n)) valB)"
    using nn by (intro constantInit_result) auto
  have mA: "malloc env H_A (4 * (n * n)) = map (host_mem env H_A) [0..<nat (n * n)]"
    using nn A by (rule malloc_cells)
  have mB: "malloc env H_B (4 * (n * n)) = map (host_mem env H_B) [0..<nat (n * n)]"
    using nn B by (rule malloc_cells)
  have mC: "\<not> host_null env H_C \<Longrightarrow>
      malloc env H_C (4 * (n * n)) = map (host_mem env H_C) [0..<nat (n * n)]"
    using nn by (rule malloc_cells)
  show ?thesis
    unfolding matrixMultiply_def Let_def sizes32[OF n] mA mB iA iB
    by (simp add: mC)
qed

lemma checkCorrectness_accumulated:
  assumes "0 < n"
  shows "checkCorrectness (replicate (nat (n * n)) (accumulate k valA valB)) n n =
           Some (AllRight, [0..n * n - 1])"
proof (rule checkCorrectness_clean)
  have "0 < n * n" using assms by simp
  then show "replicate (nat (n * n)) (accumulate k valA valB) \<noteq> []" by simp
  show "\<forall>p. 0 \<le> p \<and> p < n * n \<longrightarrow>
          \<not> fneq (replicate (nat (n * n)) (accumulate k valA valB) ! nat p)
                 (replicate (nat (n * n)) (accumulate k valA valB) ! 0)"
    using replicate_uniform[OF accumulate_not_NaN, of "nat (n * n)" k] by simp
qed (use assms in auto)

lemma matrixMultiply_success:
  assumes ok: "all_succeed env" and bs: "0 < block_size" and gs: "0 < grid_size"
    and n: "n = block_size * grid_size" and small: "n * n < 2 ^ 30"
  shows "matrixMultiply env block_size grid_size n =
    ([Malloc H_A (4 * (n * n)), Malloc H_B (4 * (n * n)), Malloc H_C (4 * (n * n)),
      CudaMalloc D_A (4 * (n * n)) cudaSuccess, CudaMalloc D_B (4 * (n * n)) cudaSuccess,
      CudaMalloc D_C (4 * (n * n)) cudaSuccess,
      CudaMemcpy D_A H_A cudaSuccess, CudaMemcpy D_B H_B cudaSuccess,
      EventCreate Start cudaSuccess, EventCreate Stop cudaSuccess,
      EventRecord Start cudaSuccess,
      KernelLaunch (nat grid_size) (nat block_size), GetLastError cudaSuccess,
      EventRecord Stop cudaSuccess, EventSynchronize Stop cudaSuccess,
      EventElapsedTime cudaSuccess, CudaMemcpy H_C D_C cudaSuccess,
      Check (replicate (nat (n * n)) (accumulate (nat n) valA valB)) AllRight,
      Free H_A, Free H_B, Free H_C, CudaFree D_A, CudaFree D_B, CudaFree D_C],
     Returned (msec env))"
proof -
  let ?N = "nat (n * n)"
  let ?d = "accumulate (nat n) valA valB"
  have n0: "0 < n" using bs gs n by simp
  have nn: "0 \<le> n * n" by simp
  have n_le: "n \<le> n * n" using n0 by (simp add: mult_le_cancel_left1)
  have bs_le: "block_size \<le> n" using bs gs n by (simp add: mult_le_cancel_left1)
  have gs_le: "grid_size \<le> n" using bs gs n by (simp add: mult_le_cancel_right1)
  have "n * n < 4294967296" using small by simp
  then have "block_size < 4294967296" "grid_size < 4294967296"
    using bs_le gs_le n_le by simp_all
  then have ub: "uint32 block_size = block_size" and ug: "uint32 grid_size = grid_size"
    using bs gs by (simp_all add: uint32_def)
  have host: "matrixMultiply env block_size grid_size n =
      matrixMultiply_device env block_size grid_size n (replicate ?N valA) (replicate ?N valB)
        (map (host_mem env H_C) [0..<?N]) (4 * (n * n)) (4 * (n * n)) (4 * (n * n))
        [Malloc H_A (4 * (n * n)), Malloc H_B (4 * (n * n)), Malloc H_C (4 * (n * n))]"
    using matrixMultiply_host[of n env block_size grid_size] ok n0 small
    by (simp add: all_succeed_def)
  have cpA: "cudaMemcpy (cudaMalloc env D_A (4 * (n * n))) (replicate ?N valA) (4 * (n * n)) =
      Some (replicate ?N valA)"
    using nn by (intro cudaMemcpy_full) (simp_all add: cudaMalloc_cells)
  have cpB: "cudaMemcpy (cudaMalloc env D_B (4 * (n * n))) (replicate ?N valB) (4 * (n * n)) =
      Some (replicate ?N valB)"
    using nn by (intro cudaMemcpy_full) (simp_all add: cudaMalloc_cells)
  have gb: "n = int (nat grid_size * nat block_size)" using bs gs n by (simp add: mult.commute)
  have N: "?N = (nat grid_size * nat block_size) * (nat grid_size * nat block_size)"
    using bs gs n by (simp add: nat_mult_distrib mult.commute)
  have "nat n = nat grid_size * nat block_size" unfolding gb by (rule nat_int)
  then have acc: "accumulate (nat grid_size * nat block_size) valA valB = ?d" by simp
  have la: "launch (nat grid_size) (nat block_size) (cudaMalloc env D_C (4 * (n * n)))
      (replicate ?N valA) (replicate ?N valB) n = Some (replicate ?N ?d)"
    using launch_result[of "nat grid_size" "nat block_size" n ?N
        "cudaMalloc env D_C (4 * (n * n))" valA valB] bs gs gb N acc nn
    by (simp add: cudaMalloc_cells)
  have cpC: "cudaMemcpy (map (host_mem env H_C) [0..<?N]) (replicate ?N ?d) (4 * (n * n)) =
      Some (replicate ?N ?d)"
    using nn by (intro cudaMemcpy_full) simp_all
  have ck: "checkCorrectness (replicate ?N ?d) n n = Some (AllRight, [0..n * n - 1])"
    using n0 by (rule checkCorrectness_accumulated)
  show ?thesis
    unfolding host using ok
    by (simp add: matrixMultiply_device_def Let_def all_succeed_def ub ug cpA cpB la cpC ck)
qed

lemma serialMultiply_success:
  assumes ok: "all_succeed env" and n0: "0 < n" and small: "n * n < 2 ^ 30"
  shows "serialMultiply env n =
    ([Malloc H_A (4 * (n * n)), Malloc H_B (4 * (n * n)), Malloc H_C (4 * (n * n)),
      Clock Start, Clock Stop,
      Check (replicate (nat (n * n)) (accumulate (nat n) valA valB)) AllRight],
     Returned (float_of_int (serial_ms env)))"
proof -
  let ?N = "nat (n * n)"
  let ?d = "accumulate (nat n) valA valB"
  have n: "0 \<le> n" "n * n < 2 ^ 30" using n0 small by simp_all
  have nn: "0 \<le> n * n" by simp
  have A: "\<not> host_null env H_A" and B: "\<not> host_null env H_B" and C: "\<not> host_null env H_C"
    using ok by (simp_all add: all_succeed_def)
  have iA: "constantInit (map (host_mem env H_A) [0..<?N]) (n * n) valA = Some (replicate ?N valA)"
    using nn by (intro constantInit_result) auto
  have iB: "constantInit (map (host_mem env H_B) [0..<?N]) (n * n) valB = Some (replicate ?N valB)"
    using nn by (intro constantInit_result) auto
  have mA: "malloc env H_A (4 * (n * n)) = map (host_mem env H_A) [0..<?N]"
    using nn A by (rule malloc_cells)
  have mB: "malloc env H_B (4 * (n * n)) = map (host_mem env H_B) [0..<?N]"
    using nn B by (rule malloc_cells)
  have mC: "malloc env H_C (4 * (n * n)) = map (host_mem env H_C) [0..<?N]"
    using nn C by (rule malloc_cells)
  have sl: "serial_loops (replicate ?N valA) (replicate ?N valB) n (map (host_mem env H_C) [0..<?N]) =
      Some (replicate ?N ?d)"
    using n0 by (intro serial_loops_result) auto
  have ck: "checkCorrectness (replicate ?N ?d) n n = Some (AllRight, [0..n * n - 1])"
    using n0 by (rule checkCorrectness_accumulated)
  show ?thesis
    unfolding serialMultiply_def Let_def sizes32[OF n] mA mB mC iA iB
    by (simp add: sl ck)
qed

lemma all_succeed_env_ok: "all_succeed env_ok"
  by (simp add: all_succeed_def env_ok_def)

lemma all_succeed_env_other: "all_succeed env_other"
  by (simp add: all_succeed_def env_other_def)

lemma accumulate_step:
  "accumulate n valA valB = x \<Longrightarrow> fadd x valB = y \<Longrightarrow> accumulate (Suc n) valA valB = y"
  by (simp add: accumulate_Suc fmul_valA_valB)

lemma sum_1: "fadd zero_f valB = Finite False 10737418 (- 30)"
  by (simp add: float_eval)

lemma sum_2: "fadd (Finite False 10737418 (- 30)) valB = Finite False 10737418 (- 29)"
  by (simp add: float_eval)

lemma sum_3: "fadd (Finite False 10737418 (- 29)) valB = Finite False 16106127 (- 29)"
  by (simp add: float_eval)

lemma sum_4: "fadd (Finite False 16106127 (- 29)) valB = Finite False 10737418 (- 28)"
  by (simp add: float_eval)

lemma sum_5: "fadd (Finite False 10737418 (- 28)) valB = Finite False 13421772 (- 28)"
  by (simp add: float_eval)

lemma sum_6: "fadd (Finite False 13421772 (- 28)) valB = Finite False 16106126 (- 28)"
  by (simp add: float_eval)

lemma accumulate_0: "accumulate 0 valA valB = zero_f"
  by (simp add: accumulate_def)

lemma accumulate_4: "accumulate 4 valA valB = Finite False 10737418 (- 28)"
proof -
  note a1 = accumulate_step[OF accumulate_0 sum_1]
  note a2 = accumulate_step[OF a1 sum_2]
  note a3 = accumulate_step[OF a2 sum_3]
  note a4 = accumulate_step[OF a3 sum_4]
  have "(4::nat) = Suc (Suc (Suc (Suc 0)))" by simp
  then show ?thesis using a4 by (simp only:)
qed

lemma accumulate_6: "accumulate 6 valA valB = Finite False 16106126 (- 28)"
proof -
  note a1 = accumulate_step[OF accumulate_0 sum_1]
  note a2 = accumulate_step[OF a1 sum_2]
  note a3 = accumulate_step[OF a2 sum_3]
  note a4 = accumulate_step[OF a3 sum_4]
  note a5 = accumulate_step[OF a4 sum_5]
  note a6 = accumulate_step[OF a5 sum_6]
  have "(6::nat) = Suc (Suc (Suc (Suc (Suc (Suc 0)))))" by simp
  then show ?thesis using a6 by (simp only:)
qed

lemma product_4: "fmul (fmul valA valB) (float_of_int 4) = Finite False 10737418 (- 28)"
  by (simp add: float_eval)

lemma product_6: "fmul (fmul valA valB) (float_of_int 6) = Finite False 16106127 (- 28)"
  by (simp add: float_eval)


lemma outputs_matrixMultiply:
  assumes "all_succeed env" "0 < block_size" "0 < grid_size"
    "n = block_size * grid_size" "n * n < 2 ^ 30"
  shows "outputs (fst (matrixMultiply env block_size grid_size n)) =
           [replicate (nat (n * n)) (accumulate (nat n) valA valB)]"
  by (simp add: matrixMultiply_success[OF assms])

lemma outputs_serialMultiply:
  assumes "all_succeed env" "0 < n" "n * n < 2 ^ 30"
  shows "outputs (fst (serialMultiply env n)) =
           [replicate (nat (n * n)) (accumulate (nat n) valA valB)]"
  by (simp add: serialMultiply_success[OF assms])

text \<open>
  C1, as the code has it. On matrices filled with the constants \<open>a\<close> and \<open>vb\<close>, the
  kernel launched on a grid that covers the matrix and the three loops of the sequential
  multiplier both produce the matrix whose every element is the single-precision sum of
  \<open>n\<close> rounded products \<open>a * vb\<close>, added one after the other to zero; so do
  \<^verbatim>\<open>matrixMultiply\<close> and \<^verbatim>\<open>serialMultiply\<close> with the fills \<open>1.0\<close> and \<open>0.01\<close> of the
  source, whenever every call succeeds. For \<open>n = 4\<close> this sum is \<open>valA * valB * n\<close>, the
  single-precision number nearest to \<open>0.04\<close>.
\<close>

theorem multipliers_on_constant_matrices:
  assumes "0 < g" "0 < b" "length C = (g * b) * (g * b)"
    and "all_succeed env" "int (g * b) * int (g * b) < 2 ^ 30"
  shows "launch g b C (replicate ((g * b) * (g * b)) a) (replicate ((g * b) * (g * b)) vb)
           (int (g * b)) = Some (replicate ((g * b) * (g * b)) (accumulate (g * b) a vb))
       \<and> serial_loops (replicate ((g * b) * (g * b)) a) (replicate ((g * b) * (g * b)) vb)
           (int (g * b)) C = Some (replicate ((g * b) * (g * b)) (accumulate (g * b) a vb))
       \<and> outputs (fst (matrixMultiply env (int b) (int g) (int (g * b)))) =
           [replicate ((g * b) * (g * b)) (accumulate (g * b) valA valB)]
       \<and> outputs (fst (serialMultiply env (int (g * b)))) =
           [replicate ((g * b) * (g * b)) (accumulate (g * b) valA valB)]
       \<and> accumulate 4 valA valB = fmul (fmul valA valB) (float_of_int 4)
       \<and> fmul (fmul valA valB) (float_of_int 4) = Finite False 10737418 (- 28)"
proof (intro conjI)
  show "launch g b C (replicate ((g * b) * (g * b)) a) (replicate ((g * b) * (g * b)) vb)
           (int (g * b)) = Some (replicate ((g * b) * (g * b)) (accumulate (g * b) a vb))"
    using assms(1-3) by (intro launch_result) auto
  have "serial_loops (replicate ((g * b) * (g * b)) a) (replicate ((g * b) * (g * b)) vb)
           (int (g * b)) C =
        Some (replicate ((g * b) * (g * b)) (accumulate (nat (int (g * b))) a vb))"
    using assms(3) by (intro serial_loops_result) auto
  then show "serial_loops (replicate ((g * b) * (g * b)) a) (replicate ((g * b) * (g * b)) vb)
           (int (g * b)) C = Some (replicate ((g * b) * (g * b)) (accumulate (g * b) a vb))"
    by (simp only: nat_int)
  have N: "nat (int (g * b) * int (g * b)) = (g * b) * (g * b)"
    by (simp add: nat_mult_distrib)
  have "outputs (fst (matrixMultiply env (int b) (int g) (int (g * b)))) =
      [replicate (nat (int (g * b) * int (g * b))) (accumulate (nat (int (g * b))) valA valB)]"
    using assms by (intro outputs_matrixMultiply) (auto simp: mult.commute)
  then show "outputs (fst (matrixMultiply env (int b) (int g) (int (g * b)))) =
           [replicate ((g * b) * (g * b)) (accumulate (g * b) valA valB)]"
    by (simp only: N nat_int)
  have "outputs (fst (serialMultiply env (int (g * b)))) =
      [replicate (nat (int (g * b) * int (g * b))) (accumulate (nat (int (g * b))) valA valB)]"
    using assms by (intro outputs_serialMultiply) auto
  then show "outputs (fst (serialMultiply env (int (g * b)))) =
           [replicate ((g * b) * (g * b)) (accumulate (g * b) valA valB)]"
    by (simp only: N nat_int)
  show "accumulate 4 valA valB = fmul (fmul valA valB) (float_of_int 4)"
    by (simp only: accumulate_4 product_4)
  show "fmul (fmul valA valB) (float_of_int 4) = Finite False 10737418 (- 28)"
    by (rule product_4)
qed

lemma nat_numerals: "nat (4 * 4) = 16" "nat 4 = 4" "nat (6 * 6) = 36" "nat 6 = 6"
  by simp_all

theorem multipliers_on_constant_matrices_witness:
  "launch 2 2 (replicate (2 * 2 * (2 * 2)) NaN) (replicate (2 * 2 * (2 * 2)) valA)
       (replicate (2 * 2 * (2 * 2)) valB) (int (2 * 2)) =
     Some (replicate (2 * 2 * (2 * 2)) (accumulate (2 * 2) valA valB))
   \<and> outputs (fst (matrixMultiply env_ok (int 2) (int 2) (int (2 * 2)))) =
       [replicate (2 * 2 * (2 * 2)) (accumulate (2 * 2) valA valB)]
   \<and> fmul (fmul valA valB) (float_of_int 4) = Finite False 10737418 (- 28)"
proof -
  have h: "int (2 * 2) * int (2 * 2) < 2 ^ 30" by simp
  have l: "length (replicate (2 * 2 * (2 * 2)) NaN) = 2 * 2 * (2 * 2)" by simp
  from multipliers_on_constant_matrices[of 2 2 "replicate (2 * 2 * (2 * 2)) NaN" env_ok valA valB,
      OF _ _ l all_succeed_env_ok h]
  show ?thesis by simp
qed

text \<open>
  C1, as stated, fails for \<open>n = 6\<close> (worker-group shape \<open>2\<close>, group-count shape \<open>3\<close>):
  every element of both results is \<open>16106126 * 2^-28\<close>, one unit in the last place
  below \<open>valA * valB * n = 16106127 * 2^-28\<close>.
\<close>

theorem constant_product_counterexample:
  "outputs (fst (matrixMultiply env_ok 2 3 6)) = [replicate 36 (Finite False 16106126 (- 28))]
   \<and> outputs (fst (serialMultiply env_ok 6)) = [replicate 36 (Finite False 16106126 (- 28))]
   \<and> fmul (fmul valA valB) (float_of_int 6) = Finite False 16106127 (- 28)"
proof (intro conjI)
  have "outputs (fst (matrixMultiply env_ok 2 3 6)) =
      [replicate (nat (6 * 6)) (accumulate (nat 6) valA valB)]"
    by (rule outputs_matrixMultiply[OF all_succeed_env_ok]) simp_all
  then show "outputs (fst (matrixMultiply env_ok 2 3 6)) =
      [replicate 36 (Finite False 16106126 (- 28))]"
    by (simp only: nat_numerals accumulate_6)
  have "outputs (fst (serialMultiply env_ok 6)) =
      [replicate (nat (6 * 6)) (accumulate (nat 6) valA valB)]"
    by (rule outputs_serialMultiply[OF all_succeed_env_ok]) simp_all
  then show "outputs (fst (serialMultiply env_ok 6)) =
      [replicate 36 (Finite False 16106126 (- 28))]"
    by (simp only: nat_numerals accumulate_6)
  show "fmul (fmul valA valB) (float_of_int 6) = Finite False 16106127 (- 28)"
    by (rule product_6)
qed

text \<open>
  C8. The matrix each multiplier hands to the checker is the same in any two runs with the
  same shapes in which every call succeeds, whatever the fresh host and device memory
  held and whatever the measured times were; each run produces exactly one such matrix.
\<close>

theorem multipliers_deterministic:
  assumes "all_succeed env1" "all_succeed env2" "0 < block_size" "0 < grid_size"
    and "n = block_size * grid_size" "n * n < 2 ^ 30"
  shows "outputs (fst (matrixMultiply env1 block_size grid_size n)) =
           outputs (fst (matrixMultiply env2 block_size grid_size n))
       \<and> outputs (fst (serialMultiply env1 n)) = outputs (fst (serialMultiply env2 n))
       \<and> length (outputs (fst (matrixMultiply env1 block_size grid_size n))) = 1
       \<and> length (outputs (fst (serialMultiply env1 n))) = 1"
proof -
  have n0: "0 < n" using assms by simp
  show ?thesis
    using outputs_matrixMultiply[OF assms(1) assms(3-6)] outputs_matrixMultiply[OF assms(2) assms(3-6)]
      outputs_serialMultiply[OF assms(1) n0 assms(6)] outputs_serialMultiply[OF assms(2) n0 assms(6)]
    by simp
qed

theorem multipliers_deterministic_witness:
  "outputs (fst (matrixMultiply env_ok 2 2 4)) = outputs (fst (matrixMultiply env_other 2 2 4))
   \<and> outputs (fst (serialMultiply env_ok 4)) = outputs (fst (serialMultiply env_other 4))
   \<and> length (outputs (fst (matrixMultiply env_ok 2 2 4))) = 1
   \<and> length (outputs (fst (serialMultiply env_ok 4))) = 1"
  by (rule multipliers_deterministic[OF all_succeed_env_ok all_succeed_env_other]) simp_all

section \<open>Traces of the accelerated multiplier and of the driver\<close>

lemma matrixMultiply_device_extends:
  "\<exists>ext. fst (matrixMultiply_device env block_size grid_size n h_A h_B h_C0 mA mB mC t0) = t0 @ ext"
  by (auto simp: matrixMultiply_device_def Let_def split: if_splits option.splits prod.splits)

lemma matrixMultiply_starts:
  "\<exists>rest. fst (matrixMultiply env block_size grid_size n) =
     Malloc H_A (uint32 (4 * uint32 (n * n))) # Malloc H_B (uint32 (4 * uint32 (n * n))) # rest"
proof -
  let ?mA = "uint32 (4 * uint32 (n * n))"
  let ?mC = "uint32 (n * n * 4)"
  have dev: "\<exists>ext. fst (matrixMultiply_device env block_size grid_size n h_A h_B h_C0 ?mA ?mA ?mC
        [Malloc H_A ?mA, Malloc H_B ?mA, Malloc H_C ?mC]) =
        Malloc H_A ?mA # Malloc H_B ?mA # ext" for h_A h_B h_C0
    using matrixMultiply_device_extends[of env block_size grid_size n h_A h_B h_C0 ?mA ?mA ?mC
        "[Malloc H_A ?mA, Malloc H_B ?mA, Malloc H_C ?mC]"]
    by auto
  show ?thesis
    using dev by (auto simp: matrixMultiply_def Let_def split: option.splits)
qed

lemma main_loop_starts:
  "\<exists>rest. fst (main_loop envs k ((block_size, grid_size) # inputs)) =
     fst (matrixMultiply (envs k) block_size grid_size (sint32 (block_size * grid_size))) @ rest"
  by (auto simp: Let_def split: outcome.splits)

lemma matrixMultiply_device_exited:
  assumes "snd (matrixMultiply_device env block_size grid_size n h_A h_B h_C0 mA mB mC t0) = Exited c"
    and "CudaFree b \<notin> set t0"
  shows "CudaFree b \<notin> set (fst (matrixMultiply_device env block_size grid_size n h_A h_B h_C0 mA mB mC t0))"
  using assms
  by (auto simp: matrixMultiply_device_def Let_def split: if_splits option.splits prod.splits)

lemma matrixMultiply_exited:
  assumes "snd (matrixMultiply env block_size grid_size n) = Exited c"
  shows "CudaFree b \<notin> set (fst (matrixMultiply env block_size grid_size n))"
  using assms matrixMultiply_device_exited[of env block_size grid_size n _ _ _ _ _ _ _ c b]
  by (auto simp: matrixMultiply_def Let_def split: if_splits option.splits)

lemma addWithCuda_released: "device_live (fst (addWithCuda dev X Y)) = {}"
  by (auto simp: addWithCuda_def Let_def device_live_def)

lemma matrixMultiply_returned_released:
  assumes "matrixMultiply env block_size grid_size n = (t, Returned x)"
  shows "device_live t = {}"
proof -
  from matrixMultiply_returned[OF assms] obtain h_C vd where
    "t = [Malloc H_A (uint32 (4 * uint32 (n * n))), Malloc H_B (uint32 (4 * uint32 (n * n))),
      Malloc H_C (uint32 (n * n * 4)),
      CudaMalloc D_A (uint32 (4 * uint32 (n * n))) cudaSuccess,
      CudaMalloc D_B (uint32 (4 * uint32 (n * n))) cudaSuccess,
      CudaMalloc D_C (uint32 (n * n * 4)) cudaSuccess,
      CudaMemcpy D_A H_A cudaSuccess, CudaMemcpy D_B H_B cudaSuccess,
      EventCreate Start cudaSuccess, EventCreate Stop cudaSuccess,
      EventRecord Start cudaSuccess,
      KernelLaunch (nat (uint32 grid_size)) (nat (uint32 block_size)), GetLastError cudaSuccess,
      EventRecord Stop cudaSuccess, EventSynchronize Stop cudaSuccess,
      EventElapsedTime cudaSuccess, CudaMemcpy H_C D_C cudaSuccess,
      Check h_C vd, Free H_A, Free H_B, Free H_C, CudaFree D_A, CudaFree D_B, CudaFree D_C]"
    by blast
  then show ?thesis by (auto simp: device_live_def)
qed

lemma matrixMultiply_device_timed:
  assumes "EventElapsedTime e \<in> set (fst (matrixMultiply_device env block_size grid_size n
              h_A h_B h_C0 mA mB mC t0))"
    and "EventElapsedTime e \<notin> set t0"
  shows "\<exists>post. fst (matrixMultiply_device env block_size grid_size n h_A h_B h_C0 mA mB mC t0) =
      t0 @ [CudaMalloc D_A mA cudaSuccess, CudaMalloc D_B mB cudaSuccess,
        CudaMalloc D_C mC cudaSuccess,
        CudaMemcpy D_A H_A cudaSuccess, CudaMemcpy D_B H_B cudaSuccess,
        EventCreate Start cudaSuccess, EventCreate Stop cudaSuccess,
        EventRecord Start cudaSuccess,
        KernelLaunch (nat (uint32 grid_size)) (nat (uint32 block_size)), GetLastError cudaSuccess,
        EventRecord Stop cudaSuccess, EventSynchronize Stop cudaSuccess,
        EventElapsedTime e] @ post"
  using assms
  by (auto simp: matrixMultiply_device_def Let_def split: if_splits option.splits prod.splits)

lemma matrixMultiply_timed:
  assumes "EventElapsedTime e \<in> set (fst (matrixMultiply env block_size grid_size n))"
  shows "\<exists>post. fst (matrixMultiply env block_size grid_size n) =
     [Malloc H_A (uint32 (4 * uint32 (n * n))), Malloc H_B (uint32 (4 * uint32 (n * n))),
      Malloc H_C (uint32 (n * n * 4)),
      CudaMalloc D_A (uint32 (4 * uint32 (n * n))) cudaSuccess,
      CudaMalloc D_B (uint32 (4 * uint32 (n * n))) cudaSuccess,
      CudaMalloc D_C (uint32 (n * n * 4)) cudaSuccess,
      CudaMemcpy D_A H_A cudaSuccess, CudaMemcpy D_B H_B cudaSuccess,
      EventCreate Start cudaSuccess, EventCreate Stop cudaSuccess,
      EventRecord Start cudaSuccess,
      KernelLaunch (nat (uint32 grid_size)) (nat (uint32 block_size)), GetLastError cudaSuccess,
      EventRecord Stop cudaSuccess, EventSynchronize Stop cudaSuccess,
      EventElapsedTime e] @ post"
proof -
  let ?mA = "uint32 (4 * uint32 (n * n))"
  let ?mC = "uint32 (n * n * 4)"
  let ?t0 = "[Malloc H_A ?mA, Malloc H_B ?mA, Malloc H_C ?mC]"
  from assms obtain h_A h_B where
    eq: "matrixMultiply env block_size grid_size n =
          matrixMultiply_device env block_size grid_size n h_A h_B (malloc env H_C ?mC)
            ?mA ?mA ?mC ?t0"
    by (auto simp: matrixMultiply_def Let_def split: option.splits if_splits)
  have "EventElapsedTime e \<notin> set ?t0" by simp
  from matrixMultiply_device_timed[OF assms[unfolded eq] this]
  show ?thesis unfolding eq by simp
qed

lemma uint32_small: "uint32 0 = 0" "uint32 1 = 1" "uint32 2 = 2" "sint32 0 = 0"
  by (simp_all add: uint32_def sint32_def)

lemma not_host_null_env_ok:
  "\<not> host_null env_launch_rejected b" "\<not> host_null env_no_device_memory b"
  by (simp_all add: env_launch_rejected_def env_no_device_memory_def env_ok_def)

lemma matrixMultiply_no_device_memory:
  "matrixMultiply env_no_device_memory 2 2 4 =
     ([Malloc H_A 64, Malloc H_B 64, Malloc H_C 64,
       CudaMalloc D_A 64 cudaSuccess, CudaMalloc D_B 64 (cudaFailure 2), Exit 1], Exited 1)"
proof -
  have "matrixMultiply env_no_device_memory 2 2 4 =
      matrixMultiply_device env_no_device_memory 2 2 4
             (replicate (nat (4 * 4)) valA) (replicate (nat (4 * 4)) valB)
             (map (host_mem env_no_device_memory H_C) [0..<nat (4 * 4)])
             (4 * (4 * 4)) (4 * (4 * 4)) (4 * (4 * 4))
             [Malloc H_A (4 * (4 * 4)), Malloc H_B (4 * (4 * 4)), Malloc H_C (4 * (4 * 4))]"
    using matrixMultiply_host[of 4 env_no_device_memory 2 2] by (simp add: not_host_null_env_ok)
  then show ?thesis
    by (simp add: matrixMultiply_device_def env_no_device_memory_def env_ok_def)
qed

lemma matrixMultiply_zero:
  "matrixMultiply env_launch_rejected block_size grid_size 0 =
     ([Malloc H_A 0, Malloc H_B 0, Malloc H_C 0,
       CudaMalloc D_A 0 cudaSuccess, CudaMalloc D_B 0 cudaSuccess, CudaMalloc D_C 0 cudaSuccess,
       CudaMemcpy D_A H_A cudaSuccess, CudaMemcpy D_B H_B cudaSuccess,
       EventCreate Start cudaSuccess, EventCreate Stop cudaSuccess,
       EventRecord Start cudaSuccess,
       KernelLaunch (nat (uint32 grid_size)) (nat (uint32 block_size)),
       GetLastError (cudaFailure 9), Exit 1], Exited 1)"
proof -
  have "matrixMultiply env_launch_rejected block_size grid_size 0 =
      matrixMultiply_device env_launch_rejected block_size grid_size 0
             (replicate (nat (0 * 0)) valA) (replicate (nat (0 * 0)) valB)
             (map (host_mem env_launch_rejected H_C) [0..<nat (0 * 0)])
             (4 * (0 * 0)) (4 * (0 * 0)) (4 * (0 * 0))
             [Malloc H_A (4 * (0 * 0)), Malloc H_B (4 * (0 * 0)), Malloc H_C (4 * (0 * 0))]"
    using matrixMultiply_host[of 0 env_launch_rejected block_size grid_size]
    by (simp add: not_host_null_env_ok)
  then show ?thesis
    by (simp add: matrixMultiply_device_def env_launch_rejected_def env_ok_def
        cudaMemcpy_def cudaMalloc_def)
qed

lemma matrixMultiply_env_ok_4:
  "matrixMultiply env_ok 2 2 4 =
    ([Malloc H_A 64, Malloc H_B 64, Malloc H_C 64,
      CudaMalloc D_A 64 cudaSuccess, CudaMalloc D_B 64 cudaSuccess, CudaMalloc D_C 64 cudaSuccess,
      CudaMemcpy D_A H_A cudaSuccess, CudaMemcpy D_B H_B cudaSuccess,
      EventCreate Start cudaSuccess, EventCreate Stop cudaSuccess,
      EventRecord Start cudaSuccess,
      KernelLaunch 2 2, GetLastError cudaSuccess,
      EventRecord Stop cudaSuccess, EventSynchronize Stop cudaSuccess,
      EventElapsedTime cudaSuccess, CudaMemcpy H_C D_C cudaSuccess,
      Check (replicate 16 (Finite False 10737418 (- 28))) AllRight,
      Free H_A, Free H_B, Free H_C, CudaFree D_A, CudaFree D_B, CudaFree D_C],
     Returned (msec env_ok))"
proof -
  have "matrixMultiply env_ok 2 2 4 =
    ([Malloc H_A (4 * (4 * 4)), Malloc H_B (4 * (4 * 4)), Malloc H_C (4 * (4 * 4)),
      CudaMalloc D_A (4 * (4 * 4)) cudaSuccess, CudaMalloc D_B (4 * (4 * 4)) cudaSuccess,
      CudaMalloc D_C (4 * (4 * 4)) cudaSuccess,
      CudaMemcpy D_A H_A cudaSuccess, CudaMemcpy D_B H_B cudaSuccess,
      EventCreate Start cudaSuccess, EventCreate Stop cudaSuccess,
      EventRecord Start cudaSuccess,
      KernelLaunch (nat 2) (nat 2), GetLastError cudaSuccess,
      EventRecord Stop cudaSuccess, EventSynchronize Stop cudaSuccess,
      EventElapsedTime cudaSuccess, CudaMemcpy H_C D_C cudaSuccess,
      Check (replicate (nat (4 * 4)) (accumulate (nat 4) valA valB)) AllRight,
      Free H_A, Free H_B, Free H_C, CudaFree D_A, CudaFree D_B, CudaFree D_C],
     Returned (msec env_ok))"
    by (rule matrixMultiply_success[OF all_succeed_env_ok]) simp_all
  moreover have "4 * (4 * 4) = (64::int)" "nat 2 = 2" by simp_all
  ultimately show ?thesis by (simp only: nat_numerals accumulate_4)
qed

text \<open>
  C3, as the code has it. \<^verbatim>\<open>addWithCuda\<close> reaches its three \<^verbatim>\<open>cudaFree\<close> calls on every
  path, so no device buffer is live when it returns. \<^verbatim>\<open>matrixMultiply\<close> releases its
  device buffers on the path that returns; on every path that ends in \<^verbatim>\<open>exit\<close> it calls
  \<^verbatim>\<open>cudaFree\<close> for no buffer.
\<close>

theorem device_buffers_released_on_return:
  assumes "matrixMultiply env block_size grid_size n = (t, Returned x)"
    and "snd (matrixMultiply env' block_size' grid_size' n') = Exited c"
  shows "device_live t = {}
       \<and> device_live (fst (addWithCuda dev matSizeX matSizeY)) = {}
       \<and> CudaFree b \<notin> set (fst (matrixMultiply env' block_size' grid_size' n'))"
  using matrixMultiply_returned_released[OF assms(1)] addWithCuda_released
    matrixMultiply_exited[OF assms(2)]
  by simp

theorem device_buffers_released_on_return_witness:
  "device_live (fst (matrixMultiply env_ok 2 2 4)) = {}
   \<and> device_live (fst (addWithCuda (\<lambda>c. cudaFailure 2) 4 4)) = {}
   \<and> CudaFree D_A \<notin> set (fst (matrixMultiply env_no_device_memory 2 2 4))"
proof -
  have r: "matrixMultiply env_ok 2 2 4 = (fst (matrixMultiply env_ok 2 2 4), Returned (msec env_ok))"
    by (simp add: matrixMultiply_env_ok_4)
  have e: "snd (matrixMultiply env_no_device_memory 2 2 4) = Exited 1"
    by (simp add: matrixMultiply_no_device_memory)
  from device_buffers_released_on_return[OF r e, of "\<lambda>c. cudaFailure 2" 4 4 D_A]
  show ?thesis .
qed

text \<open>
  C3, as stated, fails for \<^verbatim>\<open>matrixMultiply\<close>: when the second \<^verbatim>\<open>cudaMalloc\<close> fails the
  process exits while the buffer of \<open>A\<close> is still allocated.
\<close>

theorem device_buffer_live_at_exit_counterexample:
  "matrixMultiply env_no_device_memory 2 2 4 =
     ([Malloc H_A 64, Malloc H_B 64, Malloc H_C 64,
       CudaMalloc D_A 64 cudaSuccess, CudaMalloc D_B 64 (cudaFailure 2), Exit 1], Exited 1)
   \<and> device_live (fst (matrixMultiply env_no_device_memory 2 2 4)) = {D_A}"
  by (simp add: matrixMultiply_no_device_memory device_live_def)

text \<open>
  C4, as the code has it. The driver does not examine the pair it reads: in every pass,
  whatever the two shapes are, it calls \<^verbatim>\<open>matrixMultiply\<close> with their product, and the
  first actions of the pass are the host allocations of \<open>A\<close> and \<open>B\<close>.
\<close>

theorem driver_allocates_for_every_pair:
  "\<exists>rest. fst (main False envs ((block_size, grid_size) # inputs)) =
     Malloc H_A (uint32 (4 * uint32 (sint32 (block_size * grid_size) * sint32 (block_size * grid_size))))
     # Malloc H_B (uint32 (4 * uint32 (sint32 (block_size * grid_size) * sint32 (block_size * grid_size))))
     # rest"
proof -
  obtain r1 where r1: "fst (main_loop envs 0 ((block_size, grid_size) # inputs)) =
     fst (matrixMultiply (envs 0) block_size grid_size (sint32 (block_size * grid_size))) @ r1"
    using main_loop_starts by blast
  obtain r2 where r2: "fst (matrixMultiply (envs 0) block_size grid_size (sint32 (block_size * grid_size))) =
     Malloc H_A (uint32 (4 * uint32 (sint32 (block_size * grid_size) * sint32 (block_size * grid_size))))
     # Malloc H_B (uint32 (4 * uint32 (sint32 (block_size * grid_size) * sint32 (block_size * grid_size))))
     # r2"
    using matrixMultiply_starts by blast
  have "fst (main False envs ((block_size, grid_size) # inputs)) =
     Malloc H_A (uint32 (4 * uint32 (sint32 (block_size * grid_size) * sint32 (block_size * grid_size))))
     # Malloc H_B (uint32 (4 * uint32 (sint32 (block_size * grid_size) * sint32 (block_size * grid_size))))
     # (r2 @ r1)"
    unfolding main_def by (simp only: if_False r1 r2 append_Cons)
  then show ?thesis by blast
qed

text \<open>
  C4, as stated, fails: the pair \<open>(2, 0)\<close> gives \<open>n = 0\<close> and is not rejected. The three
  host buffers and the three device buffers are allocated, and the pass goes on until the
  device rejects the launch of an empty grid.
\<close>

theorem zero_dimension_not_rejected_counterexample:
  "main False (\<lambda>k. env_launch_rejected) [(2, 0)] =
     ([Malloc H_A 0, Malloc H_B 0, Malloc H_C 0,
       CudaMalloc D_A 0 cudaSuccess, CudaMalloc D_B 0 cudaSuccess, CudaMalloc D_C 0 cudaSuccess,
       CudaMemcpy D_A H_A cudaSuccess, CudaMemcpy D_B H_B cudaSuccess,
       EventCreate Start cudaSuccess, EventCreate Stop cudaSuccess,
       EventRecord Start cudaSuccess, KernelLaunch 0 2, GetLastError (cudaFailure 9), Exit 1],
      Exited 1)"
  by (simp add: main_def uint32_small matrixMultiply_zero)

text \<open>
  C5: the code runs a pass for a non-positive worker-group shape. With \<open>block_size = 0\<close>
  and \<open>grid_size = 1\<close> the buffers are allocated, the inputs are copied and a launch with
  blocks of no thread is issued; the device rejects it and the process ends with
  \<^verbatim>\<open>exit(EXIT_FAILURE)\<close>. The condition of the loop is not reached. Whatever the host
  and the device answer, and whatever \<open>grid_size\<close> is, the pass for \<open>block_size = 0\<close>
  starts with the host allocations.
\<close>

theorem driver_runs_pass_for_zero_block_size:
  "main False (\<lambda>k. env_launch_rejected) [(0, 1)] =
     ([Malloc H_A 0, Malloc H_B 0, Malloc H_C 0,
       CudaMalloc D_A 0 cudaSuccess, CudaMalloc D_B 0 cudaSuccess, CudaMalloc D_C 0 cudaSuccess,
       CudaMemcpy D_A H_A cudaSuccess, CudaMemcpy D_B H_B cudaSuccess,
       EventCreate Start cudaSuccess, EventCreate Stop cudaSuccess,
       EventRecord Start cudaSuccess, KernelLaunch 1 0, GetLastError (cudaFailure 9), Exit 1],
      Exited 1)
   \<and> (\<exists>rest. fst (main False envs ((0, grid_size) # inputs)) =
         Malloc H_A 0 # Malloc H_B 0 # rest)"
proof
  show "main False (\<lambda>k. env_launch_rejected) [(0, 1)] =
     ([Malloc H_A 0, Malloc H_B 0, Malloc H_C 0,
       CudaMalloc D_A 0 cudaSuccess, CudaMalloc D_B 0 cudaSuccess, CudaMalloc D_C 0 cudaSuccess,
       CudaMemcpy D_A H_A cudaSuccess, CudaMemcpy D_B H_B cudaSuccess,
       EventCreate Start cudaSuccess, EventCreate Stop cudaSuccess,
       EventRecord Start cudaSuccess, KernelLaunch 1 0, GetLastError (cudaFailure 9), Exit 1],
      Exited 1)"
    by (simp add: main_def uint32_small matrixMultiply_zero)
next
  obtain r1 where r1: "fst (main_loop envs 0 ((0, grid_size) # inputs)) =
     fst (matrixMultiply (envs 0) 0 grid_size (sint32 (0 * grid_size))) @ r1"
    using main_loop_starts by blast
  obtain r2 where r2: "fst (matrixMultiply (envs 0) 0 grid_size 0) =
     Malloc H_A (uint32 (4 * uint32 (0 * 0))) # Malloc H_B (uint32 (4 * uint32 (0 * 0))) # r2"
    using matrixMultiply_starts by blast
  have z: "sint32 (0 * grid_size) = 0" "uint32 (4 * uint32 (0 * 0)) = 0"
    by (simp_all add: uint32_small)
  have "fst (main False envs ((0, grid_size) # inputs)) =
     Malloc H_A 0 # Malloc H_B 0 # (r2 @ r1)"
    unfolding main_def using r1 r2 by (simp only: if_False z append_Cons)
  then show "\<exists>rest. fst (main False envs ((0, grid_size) # inputs)) =
         Malloc H_A 0 # Malloc H_B 0 # rest"
    by blast
qed

text \<open>
  C7. In every run of \<^verbatim>\<open>matrixMultiply\<close> that measures an interval, the calls up to the
  measurement are these, in this order: both input transfers have returned successfully
  before the start event is recorded; the launch follows the start event directly; the
  stop event is recorded after the launch; and the transfer of the result is not among
  them, it can only follow. A run that returns, returns the measured interval.
\<close>

theorem timed_interval_brackets_launch:
  assumes "EventElapsedTime e \<in> set (fst (matrixMultiply env block_size grid_size n))"
  shows "(\<exists>post. fst (matrixMultiply env block_size grid_size n) =
     [Malloc H_A (uint32 (4 * uint32 (n * n))), Malloc H_B (uint32 (4 * uint32 (n * n))),
      Malloc H_C (uint32 (n * n * 4)),
      CudaMalloc D_A (uint32 (4 * uint32 (n * n))) cudaSuccess,
      CudaMalloc D_B (uint32 (4 * uint32 (n * n))) cudaSuccess,
      CudaMalloc D_C (uint32 (n * n * 4)) cudaSuccess,
      CudaMemcpy D_A H_A cudaSuccess, CudaMemcpy D_B H_B cudaSuccess,
      EventCreate Start cudaSuccess, EventCreate Stop cudaSuccess,
      EventRecord Start cudaSuccess,
      KernelLaunch (nat (uint32 grid_size)) (nat (uint32 block_size)), GetLastError cudaSuccess,
      EventRecord Stop cudaSuccess, EventSynchronize Stop cudaSuccess,
      EventElapsedTime e] @ post)
    \<and> (\<forall>x. snd (matrixMultiply env block_size grid_size n) = Returned x \<longrightarrow> x = msec env)"
proof
  show "\<exists>post. fst (matrixMultiply env block_size grid_size n) =
     [Malloc H_A (uint32 (4 * uint32 (n * n))), Malloc H_B (uint32 (4 * uint32 (n * n))),
      Malloc H_C (uint32 (n * n * 4)),
      CudaMalloc D_A (uint32 (4 * uint32 (n * n))) cudaSuccess,
      CudaMalloc D_B (uint32 (4 * uint32 (n * n))) cudaSuccess,
      CudaMalloc D_C (uint32 (n * n * 4)) cudaSuccess,
      CudaMemcpy D_A H_A cudaSuccess, CudaMemcpy D_B H_B cudaSuccess,
      EventCreate Start cudaSuccess, EventCreate Stop cudaSuccess,
      EventRecord Start cudaSuccess,
      KernelLaunch (nat (uint32 grid_size)) (nat (uint32 block_size)), GetLastError cudaSuccess,
      EventRecord Stop cudaSuccess, EventSynchronize Stop cudaSuccess,
      EventElapsedTime e] @ post"
    using assms by (rule matrixMultiply_timed)
  show "\<forall>x. snd (matrixMultiply env block_size grid_size n) = Returned x \<longrightarrow> x = msec env"
  proof (intro allI impI)
    fix x assume "snd (matrixMultiply env block_size grid_size n) = Returned x"
    then have "matrixMultiply env block_size grid_size n =
        (fst (matrixMultiply env block_size grid_size n), Returned x)"
      by (metis prod.collapse)
    from matrixMultiply_returned[OF this] show "x = msec env" by blast
  qed
qed

theorem timed_interval_brackets_launch_witness:
  "(\<exists>post. fst (matrixMultiply env_ok 2 2 4) =
     [Malloc H_A 64, Malloc H_B 64, Malloc H_C 64,
      CudaMalloc D_A 64 cudaSuccess, CudaMalloc D_B 64 cudaSuccess, CudaMalloc D_C 64 cudaSuccess,
      CudaMemcpy D_A H_A cudaSuccess, CudaMemcpy D_B H_B cudaSuccess,
      EventCreate Start cudaSuccess, EventCreate Stop cudaSuccess,
      EventRecord Start cudaSuccess, KernelLaunch 2 2, GetLastError cudaSuccess,
      EventRecord Stop cudaSuccess, EventSynchronize Stop cudaSuccess,
      EventElapsedTime cudaSuccess] @ post)
   \<and> snd (matrixMultiply env_ok 2 2 4) = Returned (msec env_ok)"
proof -
  have h: "EventElapsedTime cudaSuccess \<in> set (fst (matrixMultiply env_ok 2 2 4))"
    by (simp add: matrixMultiply_env_ok_4)
  have r: "snd (matrixMultiply env_ok 2 2 4) = Returned (msec env_ok)"
    by (simp add: matrixMultiply_env_ok_4)
  from timed_interval_brackets_launch[OF h] r
  show ?thesis by (simp add: uint32_def)
qed

end
